theory Spec2Isabelle
  imports Main "HOL-Library.Word" "HOL-Library.Signed_Division"
begin

section \<open>Tokens\<close>

text \<open>
  The expression evaluator of \<^verbatim>\<open>src/main.cpp\<close>: a tokenizer (\<^verbatim>\<open>Lexer::tokenize\<close>), a
  recursive-descent parser (\<^verbatim>\<open>Parser\<close>) that builds an expression tree, and the
  evaluation of the tree (\<^verbatim>\<open>Expression::interpret\<close>). The \<^verbatim>\<open>enum class TokenType\<close> is a
  datatype, the class \<^verbatim>\<open>Token\<close> a datatype with its two getters as selectors.
\<close>

datatype TokenType = INTEGER | PLUSOPERATOR | MINUSOPERATOR | STAROPERATOR | SLASHOPERATOR
  | LPARENTHESIS | RPARENTHESIS

datatype Token = Token (getType: TokenType) (getValue: string)

definition isType :: "Token \<Rightarrow> TokenType \<Rightarrow> bool" where
  "isType tok t = (getType tok = t)"

definition isOperator :: "Token \<Rightarrow> bool" where
  "isOperator tok = (getType tok = PLUSOPERATOR \<or> getType tok = MINUSOPERATOR \<or>
     getType tok = STAROPERATOR \<or> getType tok = SLASHOPERATOR)"

section \<open>Errors\<close>

text \<open>
  Every \<^verbatim>\<open>throw\<close> of the program is a value of \<open>error\<close>. The program throws
  \<^verbatim>\<open>std::runtime_error\<close> with a message; the constructors carry the names the specification
  gives to these failures:
  \<^item> \<open>LexError ch\<close>: "Unknown character in expression: " followed by the character \<open>ch\<close>;
  \<^item> \<open>UnexpectedEnd\<close>: "Unexpected end of expression";
  \<^item> \<open>ExpectedCloseParen\<close>: "Expected closing parenthesis";
  \<^item> \<open>InvalidPrimary\<close>: "Invalid expression";
  \<^item> \<open>DivisionByZero\<close>: "Division by zero";
  \<^item> \<open>DivisionOverflow\<close>: no exception, but the end of the program on the division
    \<^verbatim>\<open>INT_MIN / -1\<close> (see \<open>cdiv\<close> below);
  \<^item> \<open>StoiInvalidArgument\<close>, \<open>StoiOutOfRange\<close>: the exceptions \<^verbatim>\<open>std::invalid_argument\<close> and
    \<^verbatim>\<open>std::out_of_range\<close> of the library function \<^verbatim>\<open>std::stoi\<close>.
\<close>

datatype error = LexError char | UnexpectedEnd | ExpectedCloseParen | InvalidPrimary
  | DivisionByZero | DivisionOverflow | StoiInvalidArgument | StoiOutOfRange

section \<open>The tokenizer\<close>

text \<open>
  \<^verbatim>\<open>isspace\<close> and \<^verbatim>\<open>isdigit\<close> of \<^verbatim>\<open><cctype>\<close> in the "C" locale (the program never
  changes the locale): the white-space characters are space, \<^verbatim>\<open>\t\<close>, \<^verbatim>\<open>\n\<close>, \<^verbatim>\<open>\v\<close>,
  \<^verbatim>\<open>\f\<close> and \<^verbatim>\<open>\r\<close>; the digits are \<^verbatim>\<open>0\<close> to \<^verbatim>\<open>9\<close> (codes 48 to 57). A \<open>char\<close> is a
  byte, as the elements of a \<^verbatim>\<open>std::string\<close> are; a byte from 128 on is neither white
  space nor a digit in that locale.
\<close>

definition isspace :: "char \<Rightarrow> bool" where
  "isspace ch = (ch = CHR '' '' \<or> ch = CHR 0x09 \<or> ch = CHR 0x0A \<or> ch = CHR 0x0B
     \<or> ch = CHR 0x0C \<or> ch = CHR 0x0D)"

definition isdigit :: "char \<Rightarrow> bool" where
  "isdigit ch = (48 \<le> (of_char ch :: nat) \<and> (of_char ch :: nat) \<le> 57)"

text \<open>
  The inner loop of \<^verbatim>\<open>tokenize\<close>,
  \<^verbatim>\<open>while (i < expr.size() && isdigit(expr[i])) num += expr[i++];\<close>
  which returns the digits collected and the index reached.
\<close>

function scan_digits :: "string \<Rightarrow> nat \<Rightarrow> string \<Rightarrow> string \<times> nat" where
  "scan_digits expr i num =
     (if i < length expr \<and> isdigit (expr ! i)
      then scan_digits expr (i + 1) (num @ [expr ! i])
      else (num, i))"
  by pat_completeness auto
termination
  by (relation "measure (\<lambda>(expr, i, num). length expr - i)") auto

declare scan_digits.simps [simp del]

lemma scan_digits_idx:
  "scan_digits expr i num = (num', i') \<Longrightarrow> i \<le> i'"
  by (induction expr i num rule: scan_digits.induct)
     (subst (asm) (2) scan_digits.simps, auto split: if_splits)

lemma scan_digits_progress:
  "i < length expr \<Longrightarrow> isdigit (expr ! i) \<Longrightarrow> scan_digits expr i num = (num', i') \<Longrightarrow> i < i'"
  by (subst (asm) scan_digits.simps) (auto dest: scan_digits_idx)

lemma scan_digits_measure:
  "i < length expr \<Longrightarrow> isdigit (expr ! i) \<Longrightarrow> (num', i') = scan_digits expr i num
   \<Longrightarrow> length expr - i' < length expr - i"
  using scan_digits_progress [of i expr num num' i'] by simp

text \<open>
  The \<^verbatim>\<open>switch (ch)\<close> of \<^verbatim>\<open>tokenize\<close>: the token of an operator or parenthesis character,
  \<open>None\<close> for the \<^verbatim>\<open>default\<close> branch (which throws).
\<close>

definition switch_token :: "char \<Rightarrow> Token option" where
  "switch_token ch =
     (if ch = CHR ''+'' then Some (Token PLUSOPERATOR ''+'')
      else if ch = CHR ''-'' then Some (Token MINUSOPERATOR ''-'')
      else if ch = CHR ''*'' then Some (Token STAROPERATOR ''*'')
      else if ch = CHR ''/'' then Some (Token SLASHOPERATOR ''/'')
      else if ch = CHR ''('' then Some (Token LPARENTHESIS ''('')
      else if ch = CHR '')'' then Some (Token RPARENTHESIS '')'')
      else None)"

text \<open>
  The outer loop \<^verbatim>\<open>while (i < expr.size())\<close> of \<^verbatim>\<open>tokenize\<close>, on the index \<open>i\<close> and the
  vector \<open>tokens\<close> built so far (\<^verbatim>\<open>emplace_back\<close> appends).
\<close>

function tokenize_loop :: "string \<Rightarrow> nat \<Rightarrow> Token list \<Rightarrow> error + Token list" where
  "tokenize_loop expr i tokens =
     (if i < length expr then
        (let ch = expr ! i in
         if isspace ch then tokenize_loop expr (i + 1) tokens
         else if isdigit ch then
           (case scan_digits expr i [] of
              (num, i') \<Rightarrow> tokenize_loop expr i' (tokens @ [Token INTEGER num]))
         else
           (case switch_token ch of
              Some tok \<Rightarrow> tokenize_loop expr (i + 1) (tokens @ [tok])
            | None \<Rightarrow> Inl (LexError ch)))
      else Inr tokens)"
  by pat_completeness auto
termination
  by (relation "measure (\<lambda>(expr, i, tokens). length expr - i)")
     (auto intro: scan_digits_measure)

declare tokenize_loop.simps [simp del]

definition tokenize :: "string \<Rightarrow> error + Token list" where
  "tokenize expr = tokenize_loop expr 0 []"

section \<open>Expressions and their evaluation\<close>

text \<open>
  The C++ type \<^verbatim>\<open>int\<close> is taken as the 32-bit two's-complement integer of the usual
  platforms. \<open>+\<close>, \<open>-\<close> and \<open>*\<close> on words wrap around, where C++ leaves signed overflow
  undefined. \<open>cdiv\<close> is the \<^verbatim>\<open>/\<close> of C++ on \<^verbatim>\<open>int\<close> with a divisor that is not zero: the
  quotient truncated toward zero. The one quotient that is no \<^verbatim>\<open>int\<close> is that of
  \<^verbatim>\<open>INT_MIN / -1\<close>: C++ leaves this division undefined, the division instruction traps
  and the program is ended by the signal \<^verbatim>\<open>SIGFPE\<close>, which the \<^verbatim>\<open>catch\<close> of \<^verbatim>\<open>main\<close> does
  not see. The model returns \<open>DivisionOverflow\<close> there.
\<close>

type_synonym cint = "32 word"

definition cdiv :: "cint \<Rightarrow> cint \<Rightarrow> error + cint" where
  "cdiv a b =
     (if sint a = - 2147483648 \<and> sint b = - 1 then Inl DivisionOverflow
      else Inr (word_of_int (sint a sdiv sint b)))"

text \<open>
  The classes derived from \<^verbatim>\<open>Expression\<close>, one constructor for each; the shared pointers
  \<^verbatim>\<open>left\<close> and \<^verbatim>\<open>right\<close> of \<^verbatim>\<open>BinaryOp\<close> are the two sub-trees.
\<close>

datatype Expression = LiteralExpression cint
  | PlusBinaryOp Expression Expression
  | MinusBinaryOp Expression Expression
  | StarBinaryOp Expression Expression
  | DivBinaryOp Expression Expression

text \<open>
  \<^verbatim>\<open>interpret\<close>, the virtual method (\<open>interpret_expr\<close> here).
  \<^verbatim>\<open>DivBinaryOp::interpret\<close> evaluates \<^verbatim>\<open>right\<close> first, throws when it is zero, and only
  then evaluates \<^verbatim>\<open>left\<close>. For the other operators C++ does not fix the order of the two
  operands; the model takes left before right. The order shows only when both operands
  fail, one with \<open>DivisionByZero\<close> and the other with \<open>DivisionOverflow\<close>.
\<close>

fun interpret_expr :: "Expression \<Rightarrow> error + cint" where
  "interpret_expr (LiteralExpression v) = Inr v"
| "interpret_expr (PlusBinaryOp left right) =
     (case interpret_expr left of
        Inl e \<Rightarrow> Inl e
      | Inr l \<Rightarrow> (case interpret_expr right of Inl e \<Rightarrow> Inl e | Inr r \<Rightarrow> Inr (l + r)))"
| "interpret_expr (MinusBinaryOp left right) =
     (case interpret_expr left of
        Inl e \<Rightarrow> Inl e
      | Inr l \<Rightarrow> (case interpret_expr right of Inl e \<Rightarrow> Inl e | Inr r \<Rightarrow> Inr (l - r)))"
| "interpret_expr (StarBinaryOp left right) =
     (case interpret_expr left of
        Inl e \<Rightarrow> Inl e
      | Inr l \<Rightarrow> (case interpret_expr right of Inl e \<Rightarrow> Inl e | Inr r \<Rightarrow> Inr (l * r)))"
| "interpret_expr (DivBinaryOp left right) =
     (case interpret_expr right of
        Inl e \<Rightarrow> Inl e
      | Inr denominator \<Rightarrow>
          if denominator = 0 then Inl DivisionByZero
          else (case interpret_expr left of
                  Inl e \<Rightarrow> Inl e
                | Inr l \<Rightarrow> cdiv l denominator))"

section \<open>The parser\<close>

text \<open>
  \<^verbatim>\<open>std::stoi\<close> (base 10) of the C++ library, which \<^verbatim>\<open>parsePrimary\<close> calls on the text of an
  INTEGER token: it skips leading white space, reads an optional sign and the longest run of
  digits, throws \<^verbatim>\<open>std::invalid_argument\<close> when there is no digit and
  \<^verbatim>\<open>std::out_of_range\<close> when the number read does not fit \<^verbatim>\<open>int\<close>.
\<close>

definition digit_value :: "char \<Rightarrow> int" where
  "digit_value ch = int (of_char ch) - 48"

definition digits_value :: "string \<Rightarrow> int" where
  "digits_value ds = foldl (\<lambda>v ch. v * 10 + digit_value ch) 0 ds"

definition stoi :: "string \<Rightarrow> error + cint" where
  "stoi s =
     (let s1 = dropWhile isspace s;
          neg = (s1 \<noteq> [] \<and> hd s1 = CHR ''-'');
          s2 = (if s1 \<noteq> [] \<and> (hd s1 = CHR ''-'' \<or> hd s1 = CHR ''+'') then tl s1 else s1);
          ds = takeWhile isdigit s2
      in if ds = [] then Inl StoiInvalidArgument
         else let v = (if neg then - digits_value ds else digits_value ds)
              in if v < - 2147483648 \<or> 2147483647 < v then Inl StoiOutOfRange
                 else Inr (word_of_int v))"

text \<open>
  The class \<^verbatim>\<open>Parser\<close> holds a constant reference \<open>tokens\<close> and the mutable index \<open>idx\<close>.
  Each method takes the tokens and the index and returns the index it leaves, next to its
  result. \<^verbatim>\<open>next()\<close> (\<open>next_token\<close> here) returns \<^verbatim>\<open>nullptr\<close>, here \<open>None\<close>, at the
  end of the tokens, and the token at \<open>idx\<close> with \<open>idx\<close> advanced otherwise.
\<close>

definition next_token :: "Token list \<Rightarrow> nat \<Rightarrow> Token option \<times> nat" where
  "next_token tokens idx =
     (if idx \<ge> length tokens then (None, idx) else (Some (tokens ! idx), idx + 1))"

definition rewind :: "nat \<Rightarrow> nat" where
  "rewind idx = (if idx > 0 then idx - 1 else idx)"

text \<open>
  The four mutually recursive methods. \<open>parseTerm_loop\<close> and \<open>parseFactor_loop\<close> are the
  \<^verbatim>\<open>while (true)\<close> loops of \<^verbatim>\<open>parseTerm\<close> and \<^verbatim>\<open>parseFactor\<close>, on the local variable
  \<open>left\<close> and the index.
\<close>

function parseExpression :: "Token list \<Rightarrow> nat \<Rightarrow> error + Expression \<times> nat"
  and parseTerm :: "Token list \<Rightarrow> nat \<Rightarrow> error + Expression \<times> nat"
  and parseTerm_loop :: "Token list \<Rightarrow> Expression \<Rightarrow> nat \<Rightarrow> error + Expression \<times> nat"
  and parseFactor :: "Token list \<Rightarrow> nat \<Rightarrow> error + Expression \<times> nat"
  and parseFactor_loop :: "Token list \<Rightarrow> Expression \<Rightarrow> nat \<Rightarrow> error + Expression \<times> nat"
  and parsePrimary :: "Token list \<Rightarrow> nat \<Rightarrow> error + Expression \<times> nat"
where
  "parseExpression tokens idx = parseTerm tokens idx"
| "parseTerm tokens idx =
     (case parseFactor tokens idx of
        Inl e \<Rightarrow> Inl e
      | Inr (left, idx1) \<Rightarrow> parseTerm_loop tokens left idx1)"
| "parseTerm_loop tokens left idx =
     (case next_token tokens idx of
        (None, idx1) \<Rightarrow> Inr (left, idx1)
      | (Some token, idx1) \<Rightarrow>
          if isType token PLUSOPERATOR then
            (case parseFactor tokens idx1 of
               Inl e \<Rightarrow> Inl e
             | Inr (right, idx2) \<Rightarrow> parseTerm_loop tokens (PlusBinaryOp left right) idx2)
          else if isType token MINUSOPERATOR then
            (case parseFactor tokens idx1 of
               Inl e \<Rightarrow> Inl e
             | Inr (right, idx2) \<Rightarrow> parseTerm_loop tokens (MinusBinaryOp left right) idx2)
          else Inr (left, rewind idx1))"
| "parseFactor tokens idx =
     (case parsePrimary tokens idx of
        Inl e \<Rightarrow> Inl e
      | Inr (left, idx1) \<Rightarrow> parseFactor_loop tokens left idx1)"
| "parseFactor_loop tokens left idx =
     (case next_token tokens idx of
        (None, idx1) \<Rightarrow> Inr (left, idx1)
      | (Some token, idx1) \<Rightarrow>
          if isType token STAROPERATOR then
            (case parsePrimary tokens idx1 of
               Inl e \<Rightarrow> Inl e
             | Inr (right, idx2) \<Rightarrow> parseFactor_loop tokens (StarBinaryOp left right) idx2)
          else if isType token SLASHOPERATOR then
            (case parsePrimary tokens idx1 of
               Inl e \<Rightarrow> Inl e
             | Inr (right, idx2) \<Rightarrow> parseFactor_loop tokens (DivBinaryOp left right) idx2)
          else Inr (left, rewind idx1))"
| "parsePrimary tokens idx =
     (case next_token tokens idx of
        (None, idx1) \<Rightarrow> Inl UnexpectedEnd
      | (Some token, idx1) \<Rightarrow>
          if isType token INTEGER then
            (case stoi (getValue token) of
               Inl e \<Rightarrow> Inl e
             | Inr v \<Rightarrow> Inr (LiteralExpression v, idx1))
          else if isType token LPARENTHESIS then
            (case parseExpression tokens idx1 of
               Inl e \<Rightarrow> Inl e
             | Inr (expr, idx2) \<Rightarrow>
                 (case next_token tokens idx2 of
                    (None, idx3) \<Rightarrow> Inl ExpectedCloseParen
                  | (Some closingParen, idx3) \<Rightarrow>
                      if \<not> isType closingParen RPARENTHESIS then Inl ExpectedCloseParen
                      else Inr (expr, idx3)))
          else Inl InvalidPrimary)"
  by pat_completeness auto

lemma next_token_Some:
  "(Some t, j) = next_token ts i \<Longrightarrow> i < length ts \<and> j = i + 1 \<and> t = ts ! i"
  by (auto simp: next_token_def split: if_splits)

lemma parse_idx_mono_partial:
  "parseExpression_parseTerm_parseTerm_loop_parseFactor_parseFactor_loop_parsePrimary_dom
     (Inl (Inl (ts, i))) \<Longrightarrow> \<forall>e j. parseExpression ts i = Inr (e, j) \<longrightarrow> i \<le> j"
  "parseExpression_parseTerm_parseTerm_loop_parseFactor_parseFactor_loop_parsePrimary_dom
     (Inl (Inr (Inl (ts1, i1)))) \<Longrightarrow> \<forall>e j. parseTerm ts1 i1 = Inr (e, j) \<longrightarrow> i1 \<le> j"
  "parseExpression_parseTerm_parseTerm_loop_parseFactor_parseFactor_loop_parsePrimary_dom
     (Inl (Inr (Inr (ts2, l2, i2)))) \<Longrightarrow> \<forall>e j. parseTerm_loop ts2 l2 i2 = Inr (e, j) \<longrightarrow> i2 \<le> j"
  "parseExpression_parseTerm_parseTerm_loop_parseFactor_parseFactor_loop_parsePrimary_dom
     (Inr (Inl (ts3, i3))) \<Longrightarrow> \<forall>e j. parseFactor ts3 i3 = Inr (e, j) \<longrightarrow> i3 \<le> j"
  "parseExpression_parseTerm_parseTerm_loop_parseFactor_parseFactor_loop_parsePrimary_dom
     (Inr (Inr (Inl (ts4, l4, i4)))) \<Longrightarrow> \<forall>e j. parseFactor_loop ts4 l4 i4 = Inr (e, j) \<longrightarrow> i4 \<le> j"
  "parseExpression_parseTerm_parseTerm_loop_parseFactor_parseFactor_loop_parsePrimary_dom
     (Inr (Inr (Inr (ts5, i5)))) \<Longrightarrow> \<forall>e j. parsePrimary ts5 i5 = Inr (e, j) \<longrightarrow> i5 \<le> j"
proof (induct rule: parseExpression_parseTerm_parseTerm_loop_parseFactor_parseFactor_loop_parsePrimary.pinduct)
  case (1 tokens idx)
  then show ?case by (simp add: parseExpression.psimps)
next
  case (2 tokens idx)
  show ?case
  proof (intro allI impI)
    fix e j assume r: "parseTerm tokens idx = Inr (e, j)"
    from r "2.hyps"(1) obtain l k where f: "parseFactor tokens idx = Inr (l, k)"
      and t: "parseTerm_loop tokens l k = Inr (e, j)"
      by (simp add: parseTerm.psimps split: sum.splits prod.splits)
    from "2.hyps"(2) f have "idx \<le> k" by blast
    moreover from "2.hyps"(3) [OF f refl] t have "k \<le> j" by blast
    ultimately show "idx \<le> j" by simp
  qed
next
  case (3 tokens left idx)
  show ?case
  proof (intro allI impI)
    fix e j assume r: "parseTerm_loop tokens left idx = Inr (e, j)"
    show "idx \<le> j"
    proof (cases "idx \<ge> length tokens")
      case True
      with r "3.hyps"(1) show ?thesis
        by (simp add: parseTerm_loop.psimps next_token_def)
    next
      case False
      then have nt: "(Some (tokens ! idx), idx + 1) = next_token tokens idx"
        by (simp add: next_token_def)
      show ?thesis
      proof (cases "isType (tokens ! idx) PLUSOPERATOR")
        case True
        from r "3.hyps"(1) nt [symmetric] True obtain rt k
          where f: "parseFactor tokens (idx + 1) = Inr (rt, k)"
            and t: "parseTerm_loop tokens (PlusBinaryOp left rt) k = Inr (e, j)"
          by (simp add: parseTerm_loop.psimps split: sum.splits prod.splits)
        from "3.hyps"(2) [OF nt refl True] f have "idx + 1 \<le> k" by blast
        moreover from "3.hyps"(3) [OF nt refl True f refl] t have "k \<le> j" by blast
        ultimately show ?thesis by simp
      next
        case notplus: False
        show ?thesis
        proof (cases "isType (tokens ! idx) MINUSOPERATOR")
          case True
          from r "3.hyps"(1) nt [symmetric] notplus True obtain rt k
            where f: "parseFactor tokens (idx + 1) = Inr (rt, k)"
              and t: "parseTerm_loop tokens (MinusBinaryOp left rt) k = Inr (e, j)"
            by (simp add: parseTerm_loop.psimps split: sum.splits prod.splits)
          from "3.hyps"(4) [OF nt refl notplus True] f have "idx + 1 \<le> k" by blast
          moreover from "3.hyps"(5) [OF nt refl notplus True f refl] t have "k \<le> j" by blast
          ultimately show ?thesis by simp
        next
          case False
          with r "3.hyps"(1) nt [symmetric] notplus show ?thesis
            by (simp add: parseTerm_loop.psimps rewind_def)
        qed
      qed
    qed
  qed
next
  case (4 tokens idx)
  show ?case
  proof (intro allI impI)
    fix e j assume r: "parseFactor tokens idx = Inr (e, j)"
    from r "4.hyps"(1) obtain l k where f: "parsePrimary tokens idx = Inr (l, k)"
      and t: "parseFactor_loop tokens l k = Inr (e, j)"
      by (simp add: parseFactor.psimps split: sum.splits prod.splits)
    from "4.hyps"(2) f have "idx \<le> k" by blast
    moreover from "4.hyps"(3) [OF f refl] t have "k \<le> j" by blast
    ultimately show "idx \<le> j" by simp
  qed
next
  case (5 tokens left idx)
  show ?case
  proof (intro allI impI)
    fix e j assume r: "parseFactor_loop tokens left idx = Inr (e, j)"
    show "idx \<le> j"
    proof (cases "idx \<ge> length tokens")
      case True
      with r "5.hyps"(1) show ?thesis
        by (simp add: parseFactor_loop.psimps next_token_def)
    next
      case False
      then have nt: "(Some (tokens ! idx), idx + 1) = next_token tokens idx"
        by (simp add: next_token_def)
      show ?thesis
      proof (cases "isType (tokens ! idx) STAROPERATOR")
        case True
        from r "5.hyps"(1) nt [symmetric] True obtain rt k
          where f: "parsePrimary tokens (idx + 1) = Inr (rt, k)"
            and t: "parseFactor_loop tokens (StarBinaryOp left rt) k = Inr (e, j)"
          by (simp add: parseFactor_loop.psimps split: sum.splits prod.splits)
        from "5.hyps"(2) [OF nt refl True] f have "idx + 1 \<le> k" by blast
        moreover from "5.hyps"(3) [OF nt refl True f refl] t have "k \<le> j" by blast
        ultimately show ?thesis by simp
      next
        case notstar: False
        show ?thesis
        proof (cases "isType (tokens ! idx) SLASHOPERATOR")
          case True
          from r "5.hyps"(1) nt [symmetric] notstar True obtain rt k
            where f: "parsePrimary tokens (idx + 1) = Inr (rt, k)"
              and t: "parseFactor_loop tokens (DivBinaryOp left rt) k = Inr (e, j)"
            by (simp add: parseFactor_loop.psimps split: sum.splits prod.splits)
          from "5.hyps"(4) [OF nt refl notstar True] f have "idx + 1 \<le> k" by blast
          moreover from "5.hyps"(5) [OF nt refl notstar True f refl] t have "k \<le> j" by blast
          ultimately show ?thesis by simp
        next
          case False
          with r "5.hyps"(1) nt [symmetric] notstar show ?thesis
            by (simp add: parseFactor_loop.psimps rewind_def)
        qed
      qed
    qed
  qed
next
  case (6 tokens idx)
  show ?case
  proof (intro allI impI)
    fix e j assume r: "parsePrimary tokens idx = Inr (e, j)"
    show "idx \<le> j"
    proof (cases "idx \<ge> length tokens")
      case True
      with r "6.hyps"(1) show ?thesis
        by (simp add: parsePrimary.psimps next_token_def)
    next
      case False
      then have nt: "(Some (tokens ! idx), idx + 1) = next_token tokens idx"
        by (simp add: next_token_def)
      show ?thesis
      proof (cases "isType (tokens ! idx) INTEGER")
        case True
        with r "6.hyps"(1) nt [symmetric] show ?thesis
          by (auto simp: parsePrimary.psimps split: sum.splits)
      next
        case notint: False
        show ?thesis
        proof (cases "isType (tokens ! idx) LPARENTHESIS")
          case True
          from r "6.hyps"(1) nt [symmetric] notint True obtain ex k
            where f: "parseExpression tokens (idx + 1) = Inr (ex, k)"
              and c: "k \<le> j"
            by (auto simp: parsePrimary.psimps next_token_def
                split: sum.splits prod.splits option.splits if_splits)
          from "6.hyps"(2) [OF nt refl notint True] f have "idx + 1 \<le> k" by blast
          with c show ?thesis by simp
        next
          case False
          with r "6.hyps"(1) nt [symmetric] notint show ?thesis
            by (simp add: parsePrimary.psimps)
        qed
      qed
    qed
  qed
qed

lemma parseFactor_idx_partial:
  "parseExpression_parseTerm_parseTerm_loop_parseFactor_parseFactor_loop_parsePrimary_dom
     (Inr (Inl (ts, i))) \<Longrightarrow> parseFactor ts i = Inr (e, j) \<Longrightarrow> i \<le> j"
  using parse_idx_mono_partial(4) by blast

lemma parsePrimary_idx_partial:
  "parseExpression_parseTerm_parseTerm_loop_parseFactor_parseFactor_loop_parsePrimary_dom
     (Inr (Inr (Inr (ts, i)))) \<Longrightarrow> parsePrimary ts i = Inr (e, j) \<Longrightarrow> i \<le> j"
  using parse_idx_mono_partial(6) by blast

termination parseExpression
  apply (relation "measure (\<lambda>x. case x of
      Inl (Inl (ts, i)) \<Rightarrow> 7 * (length ts - i) + 6
    | Inl (Inr (Inl (ts, i))) \<Rightarrow> 7 * (length ts - i) + 5
    | Inl (Inr (Inr (ts, l, i))) \<Rightarrow> 7 * (length ts - i) + 4
    | Inr (Inl (ts, i)) \<Rightarrow> 7 * (length ts - i) + 3
    | Inr (Inr (Inl (ts, l, i))) \<Rightarrow> 7 * (length ts - i) + 2
    | Inr (Inr (Inr (ts, i))) \<Rightarrow> 7 * (length ts - i) + 1)")
  apply (auto dest!: next_token_Some dest: parseFactor_idx_partial parsePrimary_idx_partial)
  done

declare parseExpression.simps [simp del] parseTerm.simps [simp del]
  parseTerm_loop.simps [simp del] parseFactor.simps [simp del]
  parseFactor_loop.simps [simp del] parsePrimary.simps [simp del]

definition parse :: "Token list \<Rightarrow> error + Expression \<times> nat" where
  "parse tokens = parseExpression tokens 0"

text \<open>
  The body of the \<^verbatim>\<open>try\<close> block of \<^verbatim>\<open>main\<close>, the specification's \<open>evaluate\<close>: tokenize,
  parse from index 0, interpret the tree.
\<close>

definition evaluate :: "string \<Rightarrow> error + cint" where
  "evaluate expr =
     (case tokenize expr of
        Inl e \<Rightarrow> Inl e
      | Inr tokens \<Rightarrow>
          (case parse tokens of
             Inl e \<Rightarrow> Inl e
           | Inr (expression, idx) \<Rightarrow> interpret_expr expression))"

section \<open>Definitions for the properties\<close>

subsection \<open>The tokenizer, by recursion on the text\<close>

text \<open>
  \<open>lex\<close> reads the text from the left as \<open>tokenize_loop\<close> does from an index: it is
  the tokenizer on the part of the text not yet read. \<open>tokenize_lex\<close> shows the two equal;
  the properties of \<open>tokenize\<close> are then proved on \<open>lex\<close>.
\<close>

function lex :: "string \<Rightarrow> error + Token list" where
  "lex [] = Inr []"
| "lex (ch # cs) =
     (if isspace ch then lex cs
      else if isdigit ch then
        (case lex (dropWhile isdigit cs) of
           Inl e \<Rightarrow> Inl e
         | Inr ts \<Rightarrow> Inr (Token INTEGER (ch # takeWhile isdigit cs) # ts))
      else
        (case switch_token ch of
           None \<Rightarrow> Inl (LexError ch)
         | Some tok \<Rightarrow> (case lex cs of Inl e \<Rightarrow> Inl e | Inr ts \<Rightarrow> Inr (tok # ts))))"
  by pat_completeness auto
termination
  by (relation "measure length") (auto simp: less_Suc_eq_le length_dropWhile_le)

subsection \<open>Accepted characters and well-formed tokens\<close>

text \<open>
  The characters the specification lets the tokenizer read: white space, an ASCII digit, one
  of the four operator symbols, a parenthesis.
\<close>

definition lexable :: "char \<Rightarrow> bool" where
  "lexable c = (isspace c \<or> isdigit c
     \<or> c = CHR ''+'' \<or> c = CHR ''-'' \<or> c = CHR ''*'' \<or> c = CHR ''/''
     \<or> c = CHR ''('' \<or> c = CHR '')'')"

text \<open>
  A token as the tokenizer builds it: the text of an INTEGER token is a non-empty run of
  digits, the text of any other token is its one character.
\<close>

definition token_ok :: "Token \<Rightarrow> bool" where
  "token_ok tok =
     (case getType tok of
        INTEGER \<Rightarrow> getValue tok \<noteq> [] \<and> list_all isdigit (getValue tok)
      | PLUSOPERATOR \<Rightarrow> getValue tok = ''+''
      | MINUSOPERATOR \<Rightarrow> getValue tok = ''-''
      | STAROPERATOR \<Rightarrow> getValue tok = ''*''
      | SLASHOPERATOR \<Rightarrow> getValue tok = ''/''
      | LPARENTHESIS \<Rightarrow> getValue tok = ''(''
      | RPARENTHESIS \<Rightarrow> getValue tok = '')'')"

subsection \<open>Decimal text of a number\<close>

text \<open>
  The specification's \<open>str(n)\<close>: the decimal digits of a natural number, without leading
  zeros (\<open>char_of 48\<close> is the character \<^verbatim>\<open>0\<close>).
\<close>

fun str :: "nat \<Rightarrow> string" where
  "str n = (if n < 10 then [char_of (48 + n)] else str (n div 10) @ [char_of (48 + n mod 10)])"

declare str.simps [simp del]

subsection \<open>Truncated quotient\<close>

text \<open>
  Integer division truncated toward zero, in the specification's words: the quotient of the
  absolute values, negated when the operands have different signs.
\<close>

definition trunc_quotient :: "int \<Rightarrow> int \<Rightarrow> int" where
  "trunc_quotient a b = (if (a < 0) = (b < 0) then \<bar>a\<bar> div \<bar>b\<bar> else - (\<bar>a\<bar> div \<bar>b\<bar>))"

subsection \<open>Tokens at which the parser stops\<close>

text \<open>
  \<open>not_mul_at tokens j\<close>: no \<open>*\<close> or \<open>/\<close> token stands at index \<open>j\<close>;
  \<open>not_op_at tokens j\<close>: no operator token stands at index \<open>j\<close>. Both hold when \<open>j\<close>
  is the end of the tokens.
\<close>

definition not_mul_at :: "Token list \<Rightarrow> nat \<Rightarrow> bool" where
  "not_mul_at tokens j = (j < length tokens \<longrightarrow>
     \<not> isType (tokens ! j) STAROPERATOR \<and> \<not> isType (tokens ! j) SLASHOPERATOR)"

definition not_op_at :: "Token list \<Rightarrow> nat \<Rightarrow> bool" where
  "not_op_at tokens j = (j < length tokens \<longrightarrow> \<not> isOperator (tokens ! j))"

subsection \<open>Expressions written out as tokens and as text\<close>

text \<open>
  The statements on precedence and associativity quantify over expressions, and need the
  text of an expression. \<open>lit_ok\<close> holds of the expressions the parser can build from a text:
  every literal is a non-negative \<^verbatim>\<open>int\<close>, since a literal comes from a run of digits.
\<close>

fun lit_ok :: "Expression \<Rightarrow> bool" where
  "lit_ok (LiteralExpression v) = (0 \<le> sint v)"
| "lit_ok (PlusBinaryOp l r) = (lit_ok l \<and> lit_ok r)"
| "lit_ok (MinusBinaryOp l r) = (lit_ok l \<and> lit_ok r)"
| "lit_ok (StarBinaryOp l r) = (lit_ok l \<and> lit_ok r)"
| "lit_ok (DivBinaryOp l r) = (lit_ok l \<and> lit_ok r)"

text \<open>
  The three levels of the grammar: a term (operand of nothing, or left operand of \<open>+\<close> and
  \<open>-\<close>), a factor (right operand of \<open>+\<close> and \<open>-\<close>, left operand of \<open>*\<close> and \<open>/\<close>) and a primary
  (right operand of \<open>*\<close> and \<open>/\<close>).
\<close>

datatype level = TermLevel | FactorLevel | PrimaryLevel

text \<open>
  \<open>tokens_of lvl e\<close> writes the expression \<open>e\<close> with the fewest parentheses that let it stand at
  level \<open>lvl\<close>: a sum or a difference is put in parentheses unless it stands at the level of a
  term, a product or a quotient only where a primary is required, and a literal never. The
  left operand of \<open>+\<close> and \<open>-\<close> is written as a term and the right one as a factor; the left
  operand of \<open>*\<close> and \<open>/\<close> is written as a factor and the right one as a primary. So
  \<open>(1+2)-3\<close> is written \<open>1+2-3\<close> and \<open>1+(2-3)\<close> keeps its parentheses. \<open>text_of\<close> is the same
  with characters, without any white space.
\<close>

definition paren_tokens :: "bool \<Rightarrow> Token list \<Rightarrow> Token list" where
  "paren_tokens b ts =
     (if b then Token LPARENTHESIS ''('' # ts @ [Token RPARENTHESIS '')''] else ts)"

fun tokens_of :: "level \<Rightarrow> Expression \<Rightarrow> Token list" where
  "tokens_of lvl (LiteralExpression v) = [Token INTEGER (str (unat v))]"
| "tokens_of lvl (PlusBinaryOp l r) =
     paren_tokens (lvl \<noteq> TermLevel)
       (tokens_of TermLevel l @ Token PLUSOPERATOR ''+'' # tokens_of FactorLevel r)"
| "tokens_of lvl (MinusBinaryOp l r) =
     paren_tokens (lvl \<noteq> TermLevel)
       (tokens_of TermLevel l @ Token MINUSOPERATOR ''-'' # tokens_of FactorLevel r)"
| "tokens_of lvl (StarBinaryOp l r) =
     paren_tokens (lvl = PrimaryLevel)
       (tokens_of FactorLevel l @ Token STAROPERATOR ''*'' # tokens_of PrimaryLevel r)"
| "tokens_of lvl (DivBinaryOp l r) =
     paren_tokens (lvl = PrimaryLevel)
       (tokens_of FactorLevel l @ Token SLASHOPERATOR ''/'' # tokens_of PrimaryLevel r)"

definition paren_text :: "bool \<Rightarrow> string \<Rightarrow> string" where
  "paren_text b s = (if b then CHR ''('' # s @ '')'' else s)"

fun text_of :: "level \<Rightarrow> Expression \<Rightarrow> string" where
  "text_of lvl (LiteralExpression v) = str (unat v)"
| "text_of lvl (PlusBinaryOp l r) =
     paren_text (lvl \<noteq> TermLevel) (text_of TermLevel l @ CHR ''+'' # text_of FactorLevel r)"
| "text_of lvl (MinusBinaryOp l r) =
     paren_text (lvl \<noteq> TermLevel) (text_of TermLevel l @ CHR ''-'' # text_of FactorLevel r)"
| "text_of lvl (StarBinaryOp l r) =
     paren_text (lvl = PrimaryLevel) (text_of FactorLevel l @ CHR ''*'' # text_of PrimaryLevel r)"
| "text_of lvl (DivBinaryOp l r) =
     paren_text (lvl = PrimaryLevel) (text_of FactorLevel l @ CHR ''/'' # text_of PrimaryLevel r)"

text \<open>
  The tokens of a text that starts with the text of some tokens: those tokens, then the tokens
  of the rest, or the error of the rest.
\<close>

definition prepend_tokens :: "Token list \<Rightarrow> error + Token list \<Rightarrow> error + Token list" where
  "prepend_tokens ts r = (case r of Inl e \<Rightarrow> Inl e | Inr ts' \<Rightarrow> Inr (ts @ ts'))"

subsection \<open>Operators and chains of operators\<close>

text \<open>
  An operator is the constructor of its node with its character. A chain is a first operand
  followed by operators, each with its right operand: \<open>chain_text\<close> is its text, the first
  operand written at one level and every other operand at another, and \<open>chain_tree\<close> the tree
  nested to the left, built by folding the chain from the left.
\<close>

type_synonym operator = "(Expression \<Rightarrow> Expression \<Rightarrow> Expression) \<times> char"

definition additive :: "operator list" where
  "additive = [(PlusBinaryOp, CHR ''+''), (MinusBinaryOp, CHR ''-'')]"

definition multiplicative :: "operator list" where
  "multiplicative = [(StarBinaryOp, CHR ''*''), (DivBinaryOp, CHR ''/'')]"

definition chain_tree :: "Expression \<Rightarrow> (operator \<times> Expression) list \<Rightarrow> Expression" where
  "chain_tree a chain = foldl (\<lambda>left ((op, c), x). op left x) a chain"

definition chain_text ::
  "level \<Rightarrow> level \<Rightarrow> Expression \<Rightarrow> (operator \<times> Expression) list \<Rightarrow> string" where
  "chain_text first_lvl lvl a chain =
     text_of first_lvl a @ concat (map (\<lambda>((op, c), x). c # text_of lvl x) chain)"


section \<open>The two tokenizers agree\<close>

lemma scan_digits_eq:
  "scan_digits expr i num =
     (num @ takeWhile isdigit (drop i expr), i + length (takeWhile isdigit (drop i expr)))"
proof (induction expr i num rule: scan_digits.induct)
  case (1 expr i num)
  show ?case
  proof (cases "i < length expr \<and> isdigit (expr ! i)")
    case True
    then have d: "drop i expr = expr ! i # drop (i + 1) expr"
      by (simp add: Cons_nth_drop_Suc)
    from True have "scan_digits expr i num = scan_digits expr (i + 1) (num @ [expr ! i])"
      by (subst scan_digits.simps) simp
    also note "1.IH" [OF True]
    finally show ?thesis using True by (simp add: d)
  next
    case False
    then have "takeWhile isdigit (drop i expr) = []"
      by (cases "i < length expr") (auto simp: Cons_nth_drop_Suc [symmetric])
    with False show ?thesis by (subst scan_digits.simps) auto
  qed
qed

lemma tokenize_loop_lex:
  "tokenize_loop expr i tokens =
     (case lex (drop i expr) of Inl e \<Rightarrow> Inl e | Inr ts \<Rightarrow> Inr (tokens @ ts))"
proof (induction expr i tokens rule: tokenize_loop.induct)
  case (1 expr i tokens)
  show ?case
  proof (cases "i < length expr")
    case False
    then show ?thesis by (subst tokenize_loop.simps) simp
  next
    case True
    then have d: "drop i expr = expr ! i # drop (i + 1) expr"
      by (simp add: Cons_nth_drop_Suc)
    show ?thesis
    proof (cases "isspace (expr ! i)")
      case sp: True
      from True sp have "tokenize_loop expr i tokens = tokenize_loop expr (i + 1) tokens"
        by (subst tokenize_loop.simps) simp
      also note "1.IH"(1) [OF True refl sp]
      finally show ?thesis using sp by (simp add: d)
    next
      case nsp: False
      show ?thesis
      proof (cases "isdigit (expr ! i)")
        case dg: True
        let ?n = "length (takeWhile isdigit (drop i expr))"
        let ?num = "takeWhile isdigit (drop i expr)"
        have sd: "scan_digits expr i [] = (?num, i + ?n)"
          by (simp add: scan_digits_eq)
        from True nsp dg sd
        have "tokenize_loop expr i tokens
                = tokenize_loop expr (i + ?n) (tokens @ [Token INTEGER ?num])"
          by (subst tokenize_loop.simps) simp
        also note "1.IH"(2) [OF True refl nsp dg sd [symmetric]]
        finally have "tokenize_loop expr i tokens =
          (case lex (drop (i + ?n) expr) of Inl e \<Rightarrow> Inl e
           | Inr ts \<Rightarrow> Inr ((tokens @ [Token INTEGER ?num]) @ ts))" .
        moreover have "drop (i + ?n) expr = dropWhile isdigit (drop (i + 1) expr)"
        proof -
          have "drop (i + ?n) expr = drop ?n (drop i expr)" by (simp add: add.commute)
          also have "\<dots> = dropWhile isdigit (drop i expr)"
            by (simp add: dropWhile_eq_drop)
          also have "\<dots> = dropWhile isdigit (drop (i + 1) expr)"
            using dg by (simp add: d)
          finally show ?thesis .
        qed
        moreover have "?num = expr ! i # takeWhile isdigit (drop (i + 1) expr)"
          using dg by (simp add: d)
        ultimately show ?thesis using nsp dg
          by (simp add: d split: sum.splits)
      next
        case ndg: False
        show ?thesis
        proof (cases "switch_token (expr ! i)")
          case None
          with True nsp ndg show ?thesis
            by (subst tokenize_loop.simps) (simp add: d)
        next
          case (Some tok)
          with True nsp ndg
          have "tokenize_loop expr i tokens = tokenize_loop expr (i + 1) (tokens @ [tok])"
            by (subst tokenize_loop.simps) simp
          also note "1.IH"(3) [OF True refl nsp ndg Some]
          finally show ?thesis using nsp ndg Some
            by (simp add: d split: sum.splits)
        qed
      qed
    qed
  qed
qed

lemma tokenize_lex: "tokenize expr = lex expr"
  by (simp add: tokenize_def tokenize_loop_lex split: sum.splits)

section \<open>Blank input\<close>

lemma lex_whitespace: "\<forall>c\<in>set s. isspace c \<Longrightarrow> lex s = Inr []"
  by (induction s) simp_all

lemma parse_Nil: "parse [] = Inl UnexpectedEnd"
  by (simp add: parse_def parseExpression.simps parseTerm.simps parseFactor.simps
      parsePrimary.simps next_token_def)

text \<open>
  Claim C10. For every input that is empty or consists of white-space characters only,
  \<open>tokenize\<close> succeeds with the empty token sequence, and \<open>evaluate\<close> fails with
  \<open>UnexpectedEnd\<close>, the error \<open>parsePrimary\<close> raises when no token is left: neither a
  lexical error nor a result.
\<close>

theorem blank_input_unexpected_end:
  "\<forall>c\<in>set s. isspace c \<Longrightarrow> tokenize s = Inr [] \<and> evaluate s = Inl UnexpectedEnd"
  by (simp add: evaluate_def tokenize_lex lex_whitespace parse_Nil)

theorem blank_input_unexpected_end_witness:
  "isspace (CHR '' '') \<and> isspace (CHR 0x09)
   \<and> tokenize [CHR '' '', CHR 0x09] = Inr []
   \<and> evaluate [CHR '' '', CHR 0x09] = Inl UnexpectedEnd
   \<and> tokenize '''' = Inr [] \<and> evaluate '''' = Inl UnexpectedEnd"
  using blank_input_unexpected_end [of "[CHR '' '', CHR 0x09]"]
    blank_input_unexpected_end [of "''''"]
  by (simp add: isspace_def)

section \<open>Errors of \<open>parsePrimary\<close>\<close>

lemma next_token_in:
  "idx < length tokens \<Longrightarrow> next_token tokens idx = (Some (tokens ! idx), idx + 1)"
  by (simp add: next_token_def)

lemma next_token_out: "length tokens \<le> idx \<Longrightarrow> next_token tokens idx = (None, idx)"
  by (simp add: next_token_def)

lemma parsePrimary_invalid:
  "idx < length tokens \<Longrightarrow> getType (tokens ! idx) \<noteq> INTEGER \<Longrightarrow>
   getType (tokens ! idx) \<noteq> LPARENTHESIS \<Longrightarrow> parsePrimary tokens idx = Inl InvalidPrimary"
  by (simp add: parsePrimary.simps next_token_in isType_def)

text \<open>
  Claim C8. A token that is neither INTEGER nor LPARENTHESIS, at an index where a primary
  is required, makes the parser fail with \<open>InvalidPrimary\<close>. A primary is required where
  \<open>parsePrimary\<close> is called: at the start of a factor, a term and an expression, after a
  \<open>*\<close> or \<open>/\<close> (in the loop of \<open>parseFactor\<close>), after a \<open>+\<close> or \<open>-\<close> (in the loop of
  \<open>parseTerm\<close>), and after an opening parenthesis. In particular a minus sign there is
  rejected: \<open>evaluate\<close> fails with \<open>InvalidPrimary\<close> on \<open>-5\<close> and on \<open>3*-2\<close>.
\<close>

theorem invalid_primary:
  assumes "idx < length tokens"
    and "getType (tokens ! idx) \<noteq> INTEGER"
    and "getType (tokens ! idx) \<noteq> LPARENTHESIS"
  shows "parsePrimary tokens idx = Inl InvalidPrimary
    \<and> parseFactor tokens idx = Inl InvalidPrimary
    \<and> parseTerm tokens idx = Inl InvalidPrimary
    \<and> parseExpression tokens idx = Inl InvalidPrimary
    \<and> (0 < idx \<and> getType (tokens ! (idx - 1)) \<in> {STAROPERATOR, SLASHOPERATOR}
         \<longrightarrow> parseFactor_loop tokens left (idx - 1) = Inl InvalidPrimary)
    \<and> (0 < idx \<and> getType (tokens ! (idx - 1)) \<in> {PLUSOPERATOR, MINUSOPERATOR}
         \<longrightarrow> parseTerm_loop tokens left (idx - 1) = Inl InvalidPrimary)
    \<and> (0 < idx \<and> getType (tokens ! (idx - 1)) = LPARENTHESIS
         \<longrightarrow> parsePrimary tokens (idx - 1) = Inl InvalidPrimary)
    \<and> evaluate ''-5'' = Inl InvalidPrimary
    \<and> evaluate ''3*-2'' = Inl InvalidPrimary"
proof -
  have p: "parsePrimary tokens idx = Inl InvalidPrimary"
    using assms by (rule parsePrimary_invalid)
  have f: "parseFactor tokens idx = Inl InvalidPrimary"
    by (simp add: parseFactor.simps p)
  have t: "parseTerm tokens idx = Inl InvalidPrimary"
    by (simp add: parseTerm.simps f)
  have e: "parseExpression tokens idx = Inl InvalidPrimary"
    by (simp add: parseExpression.simps t)
  have fl: "parseFactor_loop tokens left (idx - 1) = Inl InvalidPrimary"
    if "0 < idx" "getType (tokens ! (idx - 1)) \<in> {STAROPERATOR, SLASHOPERATOR}"
    using that assms(1) p
    by (subst parseFactor_loop.simps) (auto simp: next_token_in isType_def)
  have tl: "parseTerm_loop tokens left (idx - 1) = Inl InvalidPrimary"
    if "0 < idx" "getType (tokens ! (idx - 1)) \<in> {PLUSOPERATOR, MINUSOPERATOR}"
    using that assms(1) f
    by (subst parseTerm_loop.simps) (auto simp: next_token_in isType_def)
  have pl: "parsePrimary tokens (idx - 1) = Inl InvalidPrimary"
    if "0 < idx" "getType (tokens ! (idx - 1)) = LPARENTHESIS"
    using that assms(1) e
    by (subst parsePrimary.simps) (auto simp: next_token_in isType_def)
  have c1: "evaluate ''-5'' = Inl InvalidPrimary" by code_simp
  have c2: "evaluate ''3*-2'' = Inl InvalidPrimary" by code_simp
  from p f t e fl tl pl c1 c2 show ?thesis by blast
qed

theorem invalid_primary_witness:
  "parsePrimary [Token INTEGER ''3'', Token STAROPERATOR ''*'', Token MINUSOPERATOR ''-'',
     Token INTEGER ''2''] 2 = Inl InvalidPrimary
   \<and> parseFactor_loop [Token INTEGER ''3'', Token STAROPERATOR ''*'', Token MINUSOPERATOR ''-'',
     Token INTEGER ''2''] (LiteralExpression 3) 1 = Inl InvalidPrimary"
  using invalid_primary [of 2 "[Token INTEGER ''3'', Token STAROPERATOR ''*'',
     Token MINUSOPERATOR ''-'', Token INTEGER ''2'']" "LiteralExpression 3"]
  by simp

text \<open>
  Claim C9. When the token at \<open>idx\<close> is an opening parenthesis and the sub-expression
  after it has been parsed up to \<open>idx2\<close>, \<open>parsePrimary\<close> succeeds only if the token at
  \<open>idx2\<close> is a closing parenthesis, which it consumes; with any other token there, or
  none, it fails with \<open>ExpectedCloseParen\<close>. In particular \<open>evaluate\<close> fails with
  that error on \<open>(1+2\<close>.
\<close>

theorem expected_close_paren:
  assumes "idx < length tokens"
    and "getType (tokens ! idx) = LPARENTHESIS"
    and "parseExpression tokens (idx + 1) = Inr (expr, idx2)"
  shows "parsePrimary tokens idx =
      (if idx2 < length tokens \<and> getType (tokens ! idx2) = RPARENTHESIS
       then Inr (expr, idx2 + 1) else Inl ExpectedCloseParen)
    \<and> evaluate ''(1+2'' = Inl ExpectedCloseParen"
proof -
  have "parsePrimary tokens idx =
      (if idx2 < length tokens \<and> getType (tokens ! idx2) = RPARENTHESIS
       then Inr (expr, idx2 + 1) else Inl ExpectedCloseParen)"
    using assms
    by (subst parsePrimary.simps) (simp add: next_token_def isType_def)
  moreover have "evaluate ''(1+2'' = Inl ExpectedCloseParen" by code_simp
  ultimately show ?thesis by simp
qed

theorem expected_close_paren_witness:
  "parsePrimary [Token LPARENTHESIS ''('', Token INTEGER ''1'', Token INTEGER ''2''] 0
     = Inl ExpectedCloseParen
   \<and> parsePrimary [Token LPARENTHESIS ''('', Token INTEGER ''1''] 0 = Inl ExpectedCloseParen
   \<and> parsePrimary [Token LPARENTHESIS ''('', Token INTEGER ''1'', Token RPARENTHESIS '')''] 0
     = Inr (LiteralExpression 1, 3)"
proof -
  have a: "parseExpression [Token LPARENTHESIS ''('', Token INTEGER ''1'', Token INTEGER ''2''] (0 + 1)
      = Inr (LiteralExpression 1, 2)"
    by code_simp
  have b: "parseExpression [Token LPARENTHESIS ''('', Token INTEGER ''1''] (0 + 1)
      = Inr (LiteralExpression 1, 2)"
    by code_simp
  have c: "parseExpression [Token LPARENTHESIS ''('', Token INTEGER ''1'',
      Token RPARENTHESIS '')''] (0 + 1) = Inr (LiteralExpression 1, 2)"
    by code_simp
  show ?thesis
    using expected_close_paren [OF _ _ a] expected_close_paren [OF _ _ b]
      expected_close_paren [OF _ _ c]
    by simp
qed

section \<open>What the tokenizer accepts\<close>

lemma isdigit_not_isspace: "isdigit c \<Longrightarrow> \<not> isspace c"
  by (auto simp: isdigit_def isspace_def)

lemma switch_token_None:
  "\<not> isspace c \<Longrightarrow> \<not> isdigit c \<Longrightarrow> switch_token c = None \<longleftrightarrow> \<not> lexable c"
  by (simp add: switch_token_def lexable_def)

lemma switch_token_Some:
  "switch_token c = Some tok \<Longrightarrow> getValue tok = [c] \<and> token_ok tok \<and> \<not> isspace c"
  by (auto simp: switch_token_def token_ok_def isspace_def split: if_splits)

lemma dropWhile_append_stop:
  "\<not> P y \<Longrightarrow> dropWhile P (xs @ y # ys) = dropWhile P xs @ y # ys"
  by (induction xs) simp_all

lemma takeWhile_append_stop:
  "\<not> P y \<Longrightarrow> takeWhile P (xs @ y # ys) = takeWhile P xs"
  by (induction xs) simp_all

lemma filter_digits_split:
  "filter (\<lambda>c. \<not> isspace c) cs
     = takeWhile isdigit cs @ filter (\<lambda>c. \<not> isspace c) (dropWhile isdigit cs)"
proof -
  have t: "filter (\<lambda>c. \<not> isspace c) (takeWhile isdigit cs) = takeWhile isdigit cs"
    by (rule filter_True) (auto dest: set_takeWhileD isdigit_not_isspace)
  have "filter (\<lambda>c. \<not> isspace c) cs
      = filter (\<lambda>c. \<not> isspace c) (takeWhile isdigit cs @ dropWhile isdigit cs)"
    by simp
  also have "\<dots> = filter (\<lambda>c. \<not> isspace c) (takeWhile isdigit cs)
      @ filter (\<lambda>c. \<not> isspace c) (dropWhile isdigit cs)"
    by (rule filter_append)
  finally show ?thesis by (simp only: t)
qed

lemma lex_tokens:
  "lex s = Inr tokens \<Longrightarrow>
   list_all token_ok tokens \<and> concat (map getValue tokens) = filter (\<lambda>c. \<not> isspace c) s"
proof (induction s arbitrary: tokens rule: lex.induct)
  case 1
  then show ?case by simp
next
  case (2 ch cs)
  show ?case
  proof (cases "isspace ch")
    case True
    with 2 show ?thesis by simp
  next
    case nsp: False
    show ?thesis
    proof (cases "isdigit ch")
      case True
      from "2.prems" nsp True obtain ts where
        ts: "lex (dropWhile isdigit cs) = Inr ts"
          and tk: "tokens = Token INTEGER (ch # takeWhile isdigit cs) # ts"
        by (auto split: sum.splits)
      have ok: "token_ok (Token INTEGER (ch # takeWhile isdigit cs))"
        using True by (auto simp: token_ok_def list_all_iff dest: set_takeWhileD)
      from "2.IH"(2) [OF nsp True ts] nsp True ok tk show ?thesis
        by (simp add: filter_digits_split [of cs])
    next
      case ndg: False
      from "2.prems" nsp ndg obtain tok ts where
        tok: "switch_token ch = Some tok" and ts: "lex cs = Inr ts" and tk: "tokens = tok # ts"
        by (auto split: option.splits sum.splits)
      from "2.IH"(3) [OF nsp ndg tok ts] nsp tk switch_token_Some [OF tok] show ?thesis
        by simp
    qed
  qed
qed

lemma lex_succeeds:
  "\<forall>c\<in>set s. lexable c \<Longrightarrow> \<exists>tokens. lex s = Inr tokens"
proof (induction s rule: lex.induct)
  case 1
  show ?case by simp
next
  case (2 ch cs)
  show ?case
  proof (cases "isspace ch")
    case True
    with 2 show ?thesis by simp
  next
    case nsp: False
    show ?thesis
    proof (cases "isdigit ch")
      case True
      have "\<forall>c\<in>set (dropWhile isdigit cs). lexable c"
        using "2.prems" by (auto dest: set_dropWhileD)
      from "2.IH"(2) [OF nsp True this] nsp True show ?thesis by auto
    next
      case ndg: False
      from "2.prems" nsp ndg obtain tok where tok: "switch_token ch = Some tok"
        using switch_token_None [of ch] by auto
      from "2.IH"(3) [OF nsp ndg tok] "2.prems" nsp ndg tok show ?thesis by auto
    qed
  qed
qed

lemma lex_first_bad:
  "\<forall>c\<in>set pre. lexable c \<Longrightarrow> \<not> lexable c \<Longrightarrow> lex (pre @ c # post) = Inl (LexError c)"
proof (induction pre rule: lex.induct)
  case 1
  then show ?case
    using switch_token_None [of c] by (simp add: lexable_def)
next
  case (2 ch cs)
  have nd: "\<not> isdigit c" using "2.prems"(2) by (simp add: lexable_def)
  show ?case
  proof (cases "isspace ch")
    case True
    with 2 show ?thesis by simp
  next
    case nsp: False
    show ?thesis
    proof (cases "isdigit ch")
      case True
      have "\<forall>c\<in>set (dropWhile isdigit cs). lexable c"
        using "2.prems" by (auto dest: set_dropWhileD)
      from "2.IH"(2) [OF nsp True this "2.prems"(2)] nsp True nd show ?thesis
        by (simp add: dropWhile_append_stop)
    next
      case ndg: False
      from "2.prems" nsp ndg obtain tok where tok: "switch_token ch = Some tok"
        using switch_token_None [of ch] by auto
      from "2.IH"(3) [OF nsp ndg tok] "2.prems" nsp ndg tok show ?thesis by simp
    qed
  qed
qed

text \<open>
  Claim C6. On an input made of white space, digits, \<open>+ - * /\<close> and parentheses only,
  \<open>tokenize\<close> succeeds; its tokens are well formed and their texts, in order, are the
  characters of the input without the white space. On any other input it fails with
  \<open>LexError\<close> carrying the first character that is none of these, and so does
  \<open>evaluate\<close>. In particular \<open>evaluate\<close> fails with \<open>LexError\<close> of \<open>@\<close> on \<open>3+@2\<close>.
\<close>

theorem tokenize_lexable:
  "((\<forall>c\<in>set s. lexable c) \<longrightarrow>
      (\<exists>tokens. tokenize s = Inr tokens \<and> list_all token_ok tokens
         \<and> concat (map getValue tokens) = filter (\<lambda>c. \<not> isspace c) s))
   \<and> ((\<forall>c\<in>set pre. lexable c) \<and> \<not> lexable c \<longrightarrow>
        tokenize (pre @ c # post) = Inl (LexError c)
        \<and> evaluate (pre @ c # post) = Inl (LexError c))
   \<and> evaluate ''3+@2'' = Inl (LexError CHR ''@'')"
proof -
  have "evaluate ''3+@2'' = Inl (LexError CHR ''@'')" by code_simp
  then show ?thesis
    using lex_succeeds [of s] lex_tokens [of s]
    by (auto simp: evaluate_def tokenize_lex lex_first_bad)
qed

theorem tokenize_lexable_witness:
  "tokenize ''12 *(3)'' = Inr [Token INTEGER ''12'', Token STAROPERATOR ''*'',
      Token LPARENTHESIS ''('', Token INTEGER ''3'', Token RPARENTHESIS '')'']
   \<and> tokenize ''3+@2#'' = Inl (LexError CHR ''@'')"
proof -
  have a: "\<forall>c\<in>set ''12 *(3)''. lexable c"
    by (simp add: lexable_def isspace_def isdigit_def)
  have b: "\<forall>c\<in>set ''3+''. lexable c"
    by (simp add: lexable_def isspace_def isdigit_def)
  have c: "\<not> lexable CHR ''@''"
    by (simp add: lexable_def isspace_def isdigit_def)
  have d: "tokenize ''12 *(3)'' = Inr [Token INTEGER ''12'', Token STAROPERATOR ''*'',
      Token LPARENTHESIS ''('', Token INTEGER ''3'', Token RPARENTHESIS '')'']"
    by code_simp
  from tokenize_lexable [of "''12 *(3)''" "''3+''" "CHR ''@''" "''2#''"] a b c d
  show ?thesis by simp
qed

section \<open>White space\<close>

lemma lex_skip_whitespace: "\<forall>c\<in>set w. isspace c \<Longrightarrow> lex (w @ b) = lex b"
  by (induction w) simp_all

lemma digits_then_whitespace:
  assumes "\<forall>c\<in>set w. isspace c" and "b = [] \<or> \<not> isdigit (hd b)"
  shows "takeWhile isdigit (w @ b) = [] \<and> lex (dropWhile isdigit (w @ b)) = lex b"
proof (cases w)
  case Nil
  with assms(2) show ?thesis by (cases b) auto
next
  case (Cons c w')
  with assms(1) have "\<not> isdigit c" by (auto dest: isdigit_not_isspace)
  with Cons show ?thesis using lex_skip_whitespace [OF assms(1), of b] by simp
qed

lemma lex_insert_whitespace:
  "\<forall>c\<in>set w. isspace c \<Longrightarrow>
   \<not> (a \<noteq> [] \<and> isdigit (last a) \<and> b \<noteq> [] \<and> isdigit (hd b)) \<Longrightarrow>
   lex (a @ w @ b) = lex (a @ b)"
proof (induction a rule: lex.induct)
  case 1
  then show ?case by (simp add: lex_skip_whitespace)
next
  case (2 ch cs)
  have bnd: "\<not> (cs \<noteq> [] \<and> isdigit (last cs) \<and> b \<noteq> [] \<and> isdigit (hd b))"
    using "2.prems"(2) by auto
  show ?case
  proof (cases "isspace ch")
    case True
    with "2.IH"(1) [OF True "2.prems"(1) bnd] show ?thesis by simp
  next
    case nsp: False
    show ?thesis
    proof (cases "isdigit ch")
      case True
      show ?thesis
      proof (cases "\<forall>c\<in>set cs. isdigit c")
        case alld: True
        have "isdigit (last (ch # cs))" using True alld by (cases cs) auto
        with "2.prems"(2) have b: "b = [] \<or> \<not> isdigit (hd b)" by auto
        from digits_then_whitespace [OF "2.prems"(1) b] digits_then_whitespace [of "[]" b] b alld
        have tw: "takeWhile isdigit (cs @ w @ b) = takeWhile isdigit (cs @ b)"
          and dw: "lex (dropWhile isdigit (cs @ w @ b)) = lex (dropWhile isdigit (cs @ b))"
          by (simp_all add: takeWhile_append2 dropWhile_append2)
        from nsp True show ?thesis by (simp add: tw dw cong: sum.case_cong)
      next
        case False
        then obtain x where x: "x \<in> set cs" "\<not> isdigit x" by blast
        then have ne: "dropWhile isdigit cs \<noteq> []" by auto
        have "last (dropWhile isdigit cs) = last cs"
          using ne by (metis last_appendR takeWhile_dropWhile_id)
        with bnd have bnd': "\<not> (dropWhile isdigit cs \<noteq> [] \<and> isdigit (last (dropWhile isdigit cs))
            \<and> b \<noteq> [] \<and> isdigit (hd b))"
          by auto
        have tw: "takeWhile isdigit (cs @ ys) = takeWhile isdigit cs"
          and dw: "dropWhile isdigit (cs @ ys) = dropWhile isdigit cs @ ys" for ys
          using x by (simp_all add: takeWhile_append1 [of x] dropWhile_append1 [of x])
        from "2.IH"(2) [OF nsp True "2.prems"(1) bnd'] nsp True show ?thesis
          by (simp add: tw dw cong: sum.case_cong)
      qed
    next
      case ndg: False
      show ?thesis
      proof (cases "switch_token ch")
        case None
        with nsp ndg show ?thesis by simp
      next
        case (Some tok)
        with "2.IH"(3) [OF nsp ndg Some "2.prems"(1) bnd] nsp ndg show ?thesis by simp
      qed
    qed
  qed
qed

text \<open>
  Claim C7, as stated: two inputs that differ only in white space between tokens have the
  same outcome. It fails where the white space separates two digits: \<open>1 2\<close> has
  two INTEGER tokens and evaluates to 1, \<open>12\<close> has one and evaluates to 12.
\<close>

theorem whitespace_between_digits_counterexample:
  "tokenize ''1 2'' = Inr [Token INTEGER ''1'', Token INTEGER ''2'']
   \<and> tokenize ''12'' = Inr [Token INTEGER ''12'']
   \<and> evaluate ''1 2'' = Inr 1 \<and> evaluate ''12'' = Inr 12
   \<and> evaluate ''1 2'' \<noteq> evaluate ''12''"
proof -
  have a: "tokenize ''1 2'' = Inr [Token INTEGER ''1'', Token INTEGER ''2'']" by code_simp
  have b: "tokenize ''12'' = Inr [Token INTEGER ''12'']" by code_simp
  have c: "evaluate ''1 2'' = Inr 1" by code_simp
  have d: "evaluate ''12'' = Inr 12" by code_simp
  from a b c d show ?thesis by simp
qed

text \<open>
  Claim C7, amended. White space never produces a token: the texts of the tokens, in order,
  are the input without its white space. Inserting a run of white space \<open>w\<close> into an
  input, anywhere but between two digits, changes neither the tokens nor the outcome of
  \<open>evaluate\<close>. In particular \<open>evaluate\<close> agrees on \<open>1 +  2\<close> and \<open>1+2\<close>.
\<close>

theorem whitespace_insignificant:
  "((\<forall>c\<in>set w. isspace c) \<and> \<not> (a \<noteq> [] \<and> isdigit (last a) \<and> b \<noteq> [] \<and> isdigit (hd b)) \<longrightarrow>
      tokenize (a @ w @ b) = tokenize (a @ b) \<and> evaluate (a @ w @ b) = evaluate (a @ b))
   \<and> (tokenize s = Inr tokens \<longrightarrow>
        concat (map getValue tokens) = filter (\<lambda>c. \<not> isspace c) s)
   \<and> evaluate ''1 +  2'' = evaluate ''1+2''"
proof -
  have "evaluate ''1 +  2'' = evaluate ''1+2''" by code_simp
  then show ?thesis
    using lex_tokens [of s tokens]
    by (auto simp: evaluate_def tokenize_lex lex_insert_whitespace)
qed

theorem whitespace_insignificant_witness:
  "tokenize ''(1 +  2)'' = tokenize ''(1 +2)'' \<and> evaluate ''(1 +  2)'' = evaluate ''(1 +2)''
   \<and> evaluate ''(1 +2)'' = Inr 3"
proof -
  have w: "\<forall>c\<in>set ''  ''. isspace c" by (simp add: isspace_def)
  have e: "evaluate ''(1 +2)'' = Inr 3" by code_simp
  from whitespace_insignificant [of "''  ''" "''(1 +''" "''2)''"] w e
  show ?thesis by (simp add: isdigit_def)
qed

section \<open>Integer literals\<close>

lemma isdigit_char_of: "d < 10 \<Longrightarrow> isdigit (char_of (48 + d :: nat))"
  by (simp add: isdigit_def)

lemma digit_value_char_of: "d < 10 \<Longrightarrow> digit_value (char_of (48 + d :: nat)) = int d"
  by (simp add: digit_value_def)

lemma str_digits: "str n \<noteq> [] \<and> (\<forall>c\<in>set (str n). isdigit c)"
  by (induction n rule: str.induct) (subst (1 2) str.simps, simp add: isdigit_char_of)

lemma digits_value_snoc: "digits_value (ds @ [c]) = digits_value ds * 10 + digit_value c"
  by (simp add: digits_value_def)

lemma digits_value_str: "digits_value (str n) = int n"
proof (induction n rule: str.induct)
  case (1 n)
  show ?case
  proof (cases "n < 10")
    case True
    then show ?thesis
      by (subst str.simps) (simp add: digits_value_def digit_value_char_of)
  next
    case False
    have "int (n div 10) * 10 + int (n mod 10) = int (n div 10 * 10 + n mod 10)"
      by (simp only: of_nat_add of_nat_mult of_nat_numeral)
    also have "\<dots> = int n" by simp
    finally have "int (n div 10) * 10 + int (n mod 10) = int n" .
    with 1 False show ?thesis
      by (subst str.simps) (simp add: digits_value_snoc digit_value_char_of)
  qed
qed

lemma isdigit_not_sign: "isdigit c \<Longrightarrow> c \<noteq> CHR ''-'' \<and> c \<noteq> CHR ''+''"
  by (auto simp: isdigit_def)

lemma stoi_digits:
  assumes "ds \<noteq> []" "\<forall>c\<in>set ds. isdigit c"
  shows "stoi ds = (if digits_value ds \<le> 2147483647 then Inr (word_of_int (digits_value ds))
                    else Inl StoiOutOfRange)"
proof -
  from assms obtain c cs where ds: "ds = c # cs" and c: "isdigit c" by (cases ds) auto
  have nonneg: "0 \<le> digits_value xs" if "\<forall>c\<in>set xs. isdigit c" for xs
    using that
    by (induction xs rule: rev_induct)
       (auto simp: digits_value_snoc digit_value_def isdigit_def digits_value_def)
  have s1: "dropWhile isspace ds = ds"
    using c ds by (simp add: isdigit_not_isspace)
  have s2: "takeWhile isdigit ds = ds"
    using assms(2) by (simp add: takeWhile_eq_all_conv)
  from nonneg [OF assms(2)] isdigit_not_sign [OF c] assms(1) show ?thesis
    unfolding stoi_def s1 by (simp add: ds [symmetric] s2 Let_def) (simp add: ds)
qed

lemma stoi_str:
  "stoi (str n) = (if n \<le> 2147483647 then Inr (of_nat n) else Inl StoiOutOfRange)"
  using str_digits [of n] by (simp add: stoi_digits digits_value_str)

lemma lex_digits:
  assumes "ds \<noteq> []" "\<forall>c\<in>set ds. isdigit c" "rest = [] \<or> \<not> isdigit (hd rest)"
  shows "lex (ds @ rest) =
    (case lex rest of Inl e \<Rightarrow> Inl e | Inr ts \<Rightarrow> Inr (Token INTEGER ds # ts))"
proof -
  from assms obtain c cs where ds: "ds = c # cs" and c: "isdigit c"
    and cs: "\<forall>c\<in>set cs. isdigit c" by (cases ds) auto
  have t: "takeWhile isdigit (cs @ rest) = cs" and d: "dropWhile isdigit (cs @ rest) = rest"
    using cs assms(3) by (cases rest; simp add: takeWhile_append2 dropWhile_append2)+
  from c show ?thesis
    by (simp add: ds isdigit_not_isspace t d cong: sum.case_cong)
qed

lemma parse_single_integer:
  "parse [Token INTEGER ds] =
     (case stoi ds of Inl e \<Rightarrow> Inl e | Inr v \<Rightarrow> Inr (LiteralExpression v, 1))"
  by (simp add: parse_def parseExpression.simps parseTerm.simps parseFactor.simps
      parsePrimary.simps parseTerm_loop.simps parseFactor_loop.simps
      next_token_def isType_def split: sum.splits)

text \<open>
  Claim C5, as stated: \<open>evaluate (str n)\<close> is \<open>n\<close> for every natural number \<open>n\<close>. It
  fails from \<open>2147483648\<close> on: the literal is read by \<^verbatim>\<open>std::stoi\<close> into an \<^verbatim>\<open>int\<close>,
  and \<^verbatim>\<open>std::stoi\<close> throws \<^verbatim>\<open>std::out_of_range\<close>.
\<close>

theorem literal_round_trip_counterexample:
  "str 2147483648 = ''2147483648'' \<and> evaluate (str 2147483648) = Inl StoiOutOfRange"
proof -
  have s: "str 2147483648 = ''2147483648''"
    by (simp add: str.simps char_of_def bit_Suc_0_iff)
  have "evaluate ''2147483648'' = Inl StoiOutOfRange" by code_simp
  with s show ?thesis by (simp only:)
qed

text \<open>
  Claim C5, amended. For every natural number \<open>n\<close> up to \<open>2147483647\<close> (\<^verbatim>\<open>INT_MAX\<close>),
  \<open>evaluate (str n)\<close> is the integer \<open>n\<close>; for every larger \<open>n\<close> it fails with the
  out-of-range error of \<^verbatim>\<open>std::stoi\<close>.
\<close>

theorem literal_round_trip:
  "(n \<le> 2147483647 \<longrightarrow>
      evaluate (str n) = Inr (of_nat n) \<and> sint (of_nat n :: cint) = int n)
   \<and> (2147483647 < n \<longrightarrow> evaluate (str n) = Inl StoiOutOfRange)"
proof -
  have "tokenize (str n) = Inr [Token INTEGER (str n)]"
    using str_digits [of n] lex_digits [of "str n" "[]"] by (simp add: tokenize_lex)
  then have "evaluate (str n) =
      (if n \<le> 2147483647 then Inr (of_nat n) else Inl StoiOutOfRange)"
    by (simp add: evaluate_def parse_single_integer stoi_str)
  moreover have "sint (of_nat n :: cint) = int n" if "n \<le> 2147483647"
    using that by (simp add: signed_of_nat signed_take_bit_int_eq_self)
  ultimately show ?thesis by simp
qed

theorem literal_round_trip_witness:
  "evaluate (str 2147483647) = Inr 2147483647 \<and> sint (2147483647 :: cint) = 2147483647
   \<and> evaluate (str 0) = Inr 0 \<and> evaluate (str 4000000000) = Inl StoiOutOfRange"
  using literal_round_trip [of 2147483647] literal_round_trip [of 0]
    literal_round_trip [of 4000000000]
  by simp

section \<open>Where the parser stops\<close>

lemma not_op_atI:
  "not_mul_at tokens j \<Longrightarrow>
   (j < length tokens \<Longrightarrow> \<not> isType (tokens ! j) PLUSOPERATOR \<and> \<not> isType (tokens ! j) MINUSOPERATOR)
   \<Longrightarrow> not_op_at tokens j"
  by (auto simp: not_mul_at_def not_op_at_def isOperator_def isType_def)

lemma parse_stops:
  "\<forall>e j. parseExpression ts i = Inr (e, j) \<longrightarrow> j \<le> length ts \<and> not_op_at ts j"
  "\<forall>e j. parseTerm ts1 i1 = Inr (e, j) \<longrightarrow> j \<le> length ts1 \<and> not_op_at ts1 j"
  "\<forall>e j. i2 \<le> length ts2 \<and> not_mul_at ts2 i2 \<and> parseTerm_loop ts2 l2 i2 = Inr (e, j)
      \<longrightarrow> j \<le> length ts2 \<and> not_op_at ts2 j"
  "\<forall>e j. parseFactor ts3 i3 = Inr (e, j) \<longrightarrow> j \<le> length ts3 \<and> not_mul_at ts3 j"
  "\<forall>e j. i4 \<le> length ts4 \<and> parseFactor_loop ts4 l4 i4 = Inr (e, j)
      \<longrightarrow> j \<le> length ts4 \<and> not_mul_at ts4 j"
  "\<forall>e j. parsePrimary ts5 i5 = Inr (e, j) \<longrightarrow> j \<le> length ts5"
proof (induct ts i and ts1 i1 and ts2 l2 i2 and ts3 i3 and ts4 l4 i4 and ts5 i5
    rule: parseExpression_parseTerm_parseTerm_loop_parseFactor_parseFactor_loop_parsePrimary.induct)
  case (1 tokens idx)
  then show ?case by (simp add: parseExpression.simps)
next
  case (2 tokens idx)
  show ?case
  proof (intro allI impI)
    fix e j assume r: "parseTerm tokens idx = Inr (e, j)"
    then obtain l k where f: "parseFactor tokens idx = Inr (l, k)"
      and t: "parseTerm_loop tokens l k = Inr (e, j)"
      by (simp add: parseTerm.simps split: sum.splits prod.splits)
    from "2.hyps"(1) f have "k \<le> length tokens" "not_mul_at tokens k" by blast+
    with "2.hyps"(2) [OF f refl] t show "j \<le> length tokens \<and> not_op_at tokens j" by blast
  qed
next
  case (3 tokens left idx)
  show ?case
  proof (intro allI impI, elim conjE)
    fix e j assume le: "idx \<le> length tokens" and nm: "not_mul_at tokens idx"
      and r: "parseTerm_loop tokens left idx = Inr (e, j)"
    show "j \<le> length tokens \<and> not_op_at tokens j"
    proof (cases "idx \<ge> length tokens")
      case True
      with r have "j = idx" by (simp add: parseTerm_loop.simps next_token_def)
      with True le show ?thesis by (simp add: not_op_at_def)
    next
      case False
      then have nt: "(Some (tokens ! idx), idx + 1) = next_token tokens idx"
        by (simp add: next_token_def)
      show ?thesis
      proof (cases "isType (tokens ! idx) PLUSOPERATOR")
        case True
        from r nt [symmetric] True obtain rt k
          where f: "parseFactor tokens (idx + 1) = Inr (rt, k)"
            and t: "parseTerm_loop tokens (PlusBinaryOp left rt) k = Inr (e, j)"
          by (simp add: parseTerm_loop.simps split: sum.splits prod.splits)
        from "3.hyps"(1) [OF nt refl True] f
        have "k \<le> length tokens" "not_mul_at tokens k" by blast+
        with "3.hyps"(2) [OF nt refl True f refl] t show ?thesis by blast
      next
        case notplus: False
        show ?thesis
        proof (cases "isType (tokens ! idx) MINUSOPERATOR")
          case True
          from r nt [symmetric] notplus True obtain rt k
            where f: "parseFactor tokens (idx + 1) = Inr (rt, k)"
              and t: "parseTerm_loop tokens (MinusBinaryOp left rt) k = Inr (e, j)"
            by (simp add: parseTerm_loop.simps split: sum.splits prod.splits)
          from "3.hyps"(3) [OF nt refl notplus True] f
          have "k \<le> length tokens" "not_mul_at tokens k" by blast+
          with "3.hyps"(4) [OF nt refl notplus True f refl] t show ?thesis by blast
        next
          case False
          with r nt [symmetric] notplus have "j = idx"
            by (simp add: parseTerm_loop.simps rewind_def)
          with le nm notplus False show ?thesis by (auto intro: not_op_atI)
        qed
      qed
    qed
  qed
next
  case (4 tokens idx)
  show ?case
  proof (intro allI impI)
    fix e j assume r: "parseFactor tokens idx = Inr (e, j)"
    then obtain l k where f: "parsePrimary tokens idx = Inr (l, k)"
      and t: "parseFactor_loop tokens l k = Inr (e, j)"
      by (simp add: parseFactor.simps split: sum.splits prod.splits)
    from "4.hyps"(1) f have "k \<le> length tokens" by blast
    with "4.hyps"(2) [OF f refl] t show "j \<le> length tokens \<and> not_mul_at tokens j" by blast
  qed
next
  case (5 tokens left idx)
  show ?case
  proof (intro allI impI, elim conjE)
    fix e j assume le: "idx \<le> length tokens"
      and r: "parseFactor_loop tokens left idx = Inr (e, j)"
    show "j \<le> length tokens \<and> not_mul_at tokens j"
    proof (cases "idx \<ge> length tokens")
      case True
      with r have "j = idx" by (simp add: parseFactor_loop.simps next_token_def)
      with True le show ?thesis by (simp add: not_mul_at_def)
    next
      case False
      then have nt: "(Some (tokens ! idx), idx + 1) = next_token tokens idx"
        by (simp add: next_token_def)
      show ?thesis
      proof (cases "isType (tokens ! idx) STAROPERATOR")
        case True
        from r nt [symmetric] True obtain rt k
          where f: "parsePrimary tokens (idx + 1) = Inr (rt, k)"
            and t: "parseFactor_loop tokens (StarBinaryOp left rt) k = Inr (e, j)"
          by (simp add: parseFactor_loop.simps split: sum.splits prod.splits)
        from "5.hyps"(1) [OF nt refl True] f have "k \<le> length tokens" by blast
        with "5.hyps"(2) [OF nt refl True f refl] t show ?thesis by blast
      next
        case notstar: False
        show ?thesis
        proof (cases "isType (tokens ! idx) SLASHOPERATOR")
          case True
          from r nt [symmetric] notstar True obtain rt k
            where f: "parsePrimary tokens (idx + 1) = Inr (rt, k)"
              and t: "parseFactor_loop tokens (DivBinaryOp left rt) k = Inr (e, j)"
            by (simp add: parseFactor_loop.simps split: sum.splits prod.splits)
          from "5.hyps"(3) [OF nt refl notstar True] f have "k \<le> length tokens" by blast
          with "5.hyps"(4) [OF nt refl notstar True f refl] t show ?thesis by blast
        next
          case False
          with r nt [symmetric] notstar have "j = idx"
            by (simp add: parseFactor_loop.simps rewind_def)
          with le notstar False show ?thesis by (simp add: not_mul_at_def)
        qed
      qed
    qed
  qed
next
  case (6 tokens idx)
  show ?case
  proof (intro allI impI)
    fix e j assume r: "parsePrimary tokens idx = Inr (e, j)"
    show "j \<le> length tokens"
    proof (cases "idx \<ge> length tokens")
      case True
      with r show ?thesis by (simp add: parsePrimary.simps next_token_def)
    next
      case False
      then have nt: "(Some (tokens ! idx), idx + 1) = next_token tokens idx"
        by (simp add: next_token_def)
      show ?thesis
      proof (cases "isType (tokens ! idx) INTEGER")
        case True
        with r nt [symmetric] False show ?thesis
          by (auto simp: parsePrimary.simps split: sum.splits)
      next
        case notint: False
        show ?thesis
        proof (cases "isType (tokens ! idx) LPARENTHESIS")
          case True
          from r nt [symmetric] notint True obtain ex k
            where f: "parseExpression tokens (idx + 1) = Inr (ex, k)"
              and c: "k < length tokens" "j = k + 1"
            by (auto simp: parsePrimary.simps next_token_def
                split: sum.splits prod.splits option.splits if_splits)
          then show ?thesis by simp
        next
          case False
          with r nt [symmetric] notint show ?thesis
            by (simp add: parsePrimary.simps)
        qed
      qed
    qed
  qed
qed

text \<open>
  Claim C1, as stated: an input on which \<open>evaluate\<close> yields a result has had every token
  consumed. \<^verbatim>\<open>Parser::parse\<close> returns what \<open>parseExpression\<close> returns and does not look at
  the index: on \<open>1 2\<close> and on \<open>1)\<close> the parser stops at index 1 of two tokens, and
  \<open>evaluate\<close> yields 1.
\<close>

theorem trailing_tokens_counterexample:
  "tokenize ''1 2'' = Inr [Token INTEGER ''1'', Token INTEGER ''2'']
   \<and> parse [Token INTEGER ''1'', Token INTEGER ''2''] = Inr (LiteralExpression 1, 1)
   \<and> (1 :: nat) < length [Token INTEGER ''1'', Token INTEGER ''2'']
   \<and> evaluate ''1 2'' = Inr 1
   \<and> tokenize ''1)'' = Inr [Token INTEGER ''1'', Token RPARENTHESIS '')'']
   \<and> parse [Token INTEGER ''1'', Token RPARENTHESIS '')''] = Inr (LiteralExpression 1, 1)
   \<and> evaluate ''1)'' = Inr 1"
proof -
  have a: "tokenize ''1 2'' = Inr [Token INTEGER ''1'', Token INTEGER ''2'']" by code_simp
  have b: "parse [Token INTEGER ''1'', Token INTEGER ''2''] = Inr (LiteralExpression 1, 1)"
    by code_simp
  have c: "evaluate ''1 2'' = Inr 1" by code_simp
  have d: "tokenize ''1)'' = Inr [Token INTEGER ''1'', Token RPARENTHESIS '')'']" by code_simp
  have e: "parse [Token INTEGER ''1'', Token RPARENTHESIS '')''] = Inr (LiteralExpression 1, 1)"
    by code_simp
  have f: "evaluate ''1)'' = Inr 1" by code_simp
  from a b c d e f show ?thesis by simp
qed

text \<open>
  Claim C1, amended. When \<open>evaluate\<close> yields a result, the parser has stopped at an index
  \<open>idx\<close> within the tokens, and either every token is consumed or the token at \<open>idx\<close>,
  the first one not consumed, is not an operator: no continuation of the expression is
  left unread, and the tokens from \<open>idx\<close> on are left unconsumed.
\<close>

theorem parser_stops_before_non_operator:
  "evaluate s = Inr v \<Longrightarrow>
   \<exists>tokens expr idx. tokenize s = Inr tokens \<and> parse tokens = Inr (expr, idx)
     \<and> interpret_expr expr = Inr v
     \<and> idx \<le> length tokens \<and> (idx < length tokens \<longrightarrow> \<not> isOperator (tokens ! idx))"
proof -
  assume ev: "evaluate s = Inr v"
  then obtain tokens where t: "tokenize s = Inr tokens"
    by (auto simp: evaluate_def split: sum.splits)
  with ev obtain expr idx where p: "parse tokens = Inr (expr, idx)"
    and i: "interpret_expr expr = Inr v"
    by (auto simp: evaluate_def split: sum.splits)
  from p parse_stops(1) [of tokens 0]
  have "idx \<le> length tokens \<and> not_op_at tokens idx"
    by (simp add: parse_def)
  with t p i show ?thesis by (auto simp: not_op_at_def)
qed

theorem parser_stops_before_non_operator_witness:
  "\<exists>tokens expr idx. tokenize ''1+2 3'' = Inr tokens \<and> parse tokens = Inr (expr, idx)
     \<and> interpret_expr expr = Inr 3
     \<and> idx \<le> length tokens \<and> (idx < length tokens \<longrightarrow> \<not> isOperator (tokens ! idx))"
proof -
  have "evaluate ''1+2 3'' = Inr 3" by code_simp
  then show ?thesis by (rule parser_stops_before_non_operator)
qed

section \<open>Division\<close>

lemma interpret_expr_error:
  "interpret_expr e = Inl err \<Longrightarrow> err = DivisionByZero \<or> err = DivisionOverflow"
  by (induction e arbitrary: err) (auto simp: cdiv_def split: sum.splits if_splits)

lemma sdiv_trunc_quotient: "b \<noteq> 0 \<Longrightarrow> a sdiv b = trunc_quotient a b"
  by (auto simp: signed_divide_int_def trunc_quotient_def sgn_if)

lemma trunc_quotient_bounds:
  assumes "b \<noteq> 0" "- 2147483648 \<le> a" "a < 2147483648" "\<not> (a = - 2147483648 \<and> b = - 1)"
  shows "- 2147483648 \<le> trunc_quotient a b \<and> trunc_quotient a b < 2147483648"
proof -
  have le: "\<bar>a\<bar> div \<bar>b\<bar> \<le> \<bar>a\<bar>"
    using zdiv_mono2 [of "\<bar>a\<bar>" 1 "\<bar>b\<bar>"] assms(1) by simp
  have nn: "0 \<le> \<bar>a\<bar> div \<bar>b\<bar>"
    using assms(1) by (simp add: pos_imp_zdiv_nonneg_iff)
  show ?thesis
  proof (cases "\<bar>a\<bar> = 2147483648")
    case False
    with assms le nn show ?thesis by (auto simp: trunc_quotient_def)
  next
    case True
    with assms have a: "a = - 2147483648" by auto
    show ?thesis
    proof (cases "b < 0")
      case False
      with a le nn show ?thesis by (auto simp: trunc_quotient_def)
    next
      case True
      with a assms have "b \<le> - 2" by auto
      then have "\<bar>b\<bar> \<ge> 2" by simp
      then have "\<bar>a\<bar> div \<bar>b\<bar> \<le> \<bar>a\<bar> div 2"
        by (intro zdiv_mono2) auto
      with a nn True show ?thesis by (auto simp: trunc_quotient_def)
    qed
  qed
qed

lemma cdiv_trunc_quotient:
  fixes n d :: cint
  assumes "d \<noteq> 0" "\<not> (sint n = - 2147483648 \<and> sint d = - 1)"
  shows "\<exists>q. cdiv n d = Inr q \<and> sint q = trunc_quotient (sint n) (sint d)"
proof -
  have d0: "sint d \<noteq> 0" using assms(1) by (simp add: signed_eq_0_iff)
  have r: "- 2147483648 \<le> sint n" "sint n < 2147483648"
    using sint_ge [of n] sint_lt [of n] by simp_all
  from trunc_quotient_bounds [OF d0 r assms(2)]
  have "sint (word_of_int (trunc_quotient (sint n) (sint d)) :: cint)
          = trunc_quotient (sint n) (sint d)"
    by (simp add: sint_sbintrunc' signed_take_bit_int_eq_self)
  with assms(2) show ?thesis by (simp add: cdiv_def sdiv_trunc_quotient [OF d0])
qed

text \<open>
  Claim C4, as stated: with a right operand that is not zero, a division node yields the
  quotient truncated toward zero. It fails for \<^verbatim>\<open>INT_MIN / -1\<close>, which the input
  \<open>(0-2147483647-1)/(0-1)\<close> reaches without any earlier overflow: the quotient
  \<open>2147483648\<close> is no \<^verbatim>\<open>int\<close>, \<^verbatim>\<open>DivBinaryOp::interpret\<close> guards only against zero, and the
  division does not return.
\<close>

theorem division_overflow_counterexample:
  "interpret_expr (MinusBinaryOp (MinusBinaryOp (LiteralExpression 0)
       (LiteralExpression 2147483647)) (LiteralExpression 1)) = Inr (- 2147483648)
   \<and> interpret_expr (MinusBinaryOp (LiteralExpression 0) (LiteralExpression 1)) = Inr (- 1)
   \<and> sint (- 2147483648 :: cint) = - 2147483648 \<and> sint (- 1 :: cint) = - 1
   \<and> trunc_quotient (- 2147483648) (- 1) = 2147483648
   \<and> interpret_expr (DivBinaryOp
         (MinusBinaryOp (MinusBinaryOp (LiteralExpression 0) (LiteralExpression 2147483647))
            (LiteralExpression 1))
         (MinusBinaryOp (LiteralExpression 0) (LiteralExpression 1))) = Inl DivisionOverflow
   \<and> evaluate ''(0-2147483647-1)/(0-1)'' = Inl DivisionOverflow"
proof -
  have e: "evaluate ''(0-2147483647-1)/(0-1)'' = Inl DivisionOverflow" by code_simp
  have t: "trunc_quotient (- 2147483648) (- 1) = 2147483648"
    by (simp add: trunc_quotient_def)
  from e t show ?thesis by (simp add: cdiv_def)
qed

text \<open>
  Claim C4, amended. A division node evaluates its right operand first: an error of the
  right operand is the error of the node, and when the right operand is zero the node fails
  with \<open>DivisionByZero\<close>, whatever the left operand is, also when the left operand would
  fail. Otherwise the left operand is evaluated, and unless the operands are \<^verbatim>\<open>INT_MIN\<close>
  and \<open>-1\<close> the node yields the quotient truncated toward zero; on \<^verbatim>\<open>INT_MIN\<close> and \<open>-1\<close>
  the division overflows and the node yields no value. In particular
  \<open>evaluate\<close> fails with \<open>DivisionByZero\<close> on \<open>5/0\<close>.
\<close>

theorem division_by_zero_checked:
  "(interpret_expr right = Inl e \<longrightarrow> interpret_expr (DivBinaryOp left right) = Inl e)
   \<and> (interpret_expr right = Inr 0 \<longrightarrow>
        interpret_expr (DivBinaryOp left right) = Inl DivisionByZero)
   \<and> (interpret_expr right = Inr d \<and> d \<noteq> 0 \<and> interpret_expr left = Inl e \<longrightarrow>
        interpret_expr (DivBinaryOp left right) = Inl e)
   \<and> (interpret_expr right = Inr d \<and> d \<noteq> 0 \<and> interpret_expr left = Inr n
        \<and> \<not> (sint n = - 2147483648 \<and> sint d = - 1) \<longrightarrow>
        (\<exists>q. interpret_expr (DivBinaryOp left right) = Inr q
           \<and> sint q = trunc_quotient (sint n) (sint d)))
   \<and> (interpret_expr right = Inr d \<and> interpret_expr left = Inr n
        \<and> sint n = - 2147483648 \<and> sint d = - 1 \<longrightarrow>
        interpret_expr (DivBinaryOp left right) = Inl DivisionOverflow)
   \<and> evaluate ''5/0'' = Inl DivisionByZero"
proof -
  have c: "evaluate ''5/0'' = Inl DivisionByZero" by code_simp
  have 1: "interpret_expr right = Inl e \<longrightarrow> interpret_expr (DivBinaryOp left right) = Inl e"
    by simp
  have 2: "interpret_expr right = Inr 0 \<longrightarrow>
      interpret_expr (DivBinaryOp left right) = Inl DivisionByZero"
    by simp
  have 3: "interpret_expr right = Inr d \<and> d \<noteq> 0 \<and> interpret_expr left = Inl e \<longrightarrow>
      interpret_expr (DivBinaryOp left right) = Inl e"
    by simp
  have 4: "interpret_expr right = Inr d \<and> d \<noteq> 0 \<and> interpret_expr left = Inr n
        \<and> \<not> (sint n = - 2147483648 \<and> sint d = - 1) \<longrightarrow>
        (\<exists>q. interpret_expr (DivBinaryOp left right) = Inr q
           \<and> sint q = trunc_quotient (sint n) (sint d))"
    using cdiv_trunc_quotient [of d n] by auto
  have 5: "interpret_expr right = Inr d \<and> interpret_expr left = Inr n
        \<and> sint n = - 2147483648 \<and> sint d = - 1 \<longrightarrow>
        interpret_expr (DivBinaryOp left right) = Inl DivisionOverflow"
    by (auto simp: cdiv_def)
  from 1 2 3 4 5 c show ?thesis by blast
qed

theorem division_by_zero_checked_witness:
  "interpret_expr (DivBinaryOp (LiteralExpression 7) (LiteralExpression 0)) = Inl DivisionByZero
   \<and> interpret_expr (DivBinaryOp
        (DivBinaryOp (LiteralExpression (- 2147483648)) (LiteralExpression (- 1)))
        (LiteralExpression 0)) = Inl DivisionByZero
   \<and> (\<exists>q. interpret_expr (DivBinaryOp (LiteralExpression (- 7)) (LiteralExpression 2)) = Inr q
         \<and> sint q = - 3)
   \<and> interpret_expr (DivBinaryOp (LiteralExpression (- 2147483648)) (LiteralExpression (- 1)))
       = Inl DivisionOverflow"
  using division_by_zero_checked [where left = "LiteralExpression 7"
      and right = "LiteralExpression 0"]
    division_by_zero_checked [where left = "DivBinaryOp (LiteralExpression (- 2147483648))
        (LiteralExpression (- 1))" and right = "LiteralExpression 0"]
    division_by_zero_checked [where left = "LiteralExpression (- 7)"
      and right = "LiteralExpression 2" and d = 2 and n = "- 7"]
    division_by_zero_checked [where left = "LiteralExpression (- 2147483648)"
      and right = "LiteralExpression (- 1)" and d = "- 1" and n = "- 2147483648"]
  by (simp add: trunc_quotient_def)


section \<open>The parser on the tokens of an expression\<close>

text \<open>
  The parser reads the tokens of an expression back into the expression. The statement is
  proved for the three levels at once, anywhere in a token list: where the tokens of \<open>e\<close>
  written as a primary start, \<open>parsePrimary\<close> returns \<open>e\<close> and the index after them; where
  the tokens of \<open>e\<close> written as a factor start, \<open>parseFactor\<close> does what its loop does from
  \<open>e\<close> and the index after them; and the same for \<open>parseTerm\<close>, provided no \<open>*\<close> or \<open>/\<close>
  follows.
\<close>

lemma next_token_drop: "drop i ts = t # rest \<Longrightarrow> next_token ts i = (Some t, Suc i)"
proof -
  assume d: "drop i ts = t # rest"
  then have "i < length ts" by (cases "i < length ts") auto
  moreover from d have "ts ! i = t" by (rule nth_via_drop)
  ultimately show ?thesis by (simp add: next_token_def)
qed

lemma drop_shift: "drop i ts = xs @ ys \<Longrightarrow> drop (i + length xs) ts = ys"
proof -
  assume "drop i ts = xs @ ys"
  then have "drop (length xs) (drop i ts) = ys" by simp
  then show ?thesis by (simp add: add.commute)
qed

lemma drop_next: "drop i ts = t # rest \<Longrightarrow> drop (Suc i) ts = rest"
  using drop_shift [of i ts "[t]" rest] by simp

lemma not_mul_at_drop:
  "drop j ts = rest \<Longrightarrow>
   rest = [] \<or> (getType (hd rest) \<noteq> STAROPERATOR \<and> getType (hd rest) \<noteq> SLASHOPERATOR) \<Longrightarrow>
   not_mul_at ts j"
  by (cases rest) (auto simp: not_mul_at_def isType_def dest: nth_via_drop)

lemma parseFactor_loop_stop:
  "not_mul_at ts j \<Longrightarrow> parseFactor_loop ts left j = Inr (left, j)"
  by (subst parseFactor_loop.simps) (simp add: next_token_def not_mul_at_def rewind_def)

lemma parseTerm_loop_stop:
  "not_op_at ts j \<Longrightarrow> parseTerm_loop ts left j = Inr (left, j)"
  by (subst parseTerm_loop.simps)
     (simp add: next_token_def not_op_at_def rewind_def isOperator_def isType_def)

lemma parseFactor_loop_step:
  assumes "drop j ts = Token ty s # rest"
    and "(ty, mop) = (STAROPERATOR, StarBinaryOp) \<or> (ty, mop) = (SLASHOPERATOR, DivBinaryOp)"
    and "parsePrimary ts (Suc j) = Inr (r, k)"
  shows "parseFactor_loop ts left j = parseFactor_loop ts (mop left r) k"
  using assms(2,3)
  by (subst parseFactor_loop.simps) (auto simp: next_token_drop [OF assms(1)] isType_def)

lemma parseTerm_loop_step:
  assumes "drop j ts = Token ty s # rest"
    and "(ty, aop) = (PLUSOPERATOR, PlusBinaryOp) \<or> (ty, aop) = (MINUSOPERATOR, MinusBinaryOp)"
    and "parseFactor ts (Suc j) = Inr (r, k)"
  shows "parseTerm_loop ts left j = parseTerm_loop ts (aop left r) k"
  using assms(2,3)
  by (subst parseTerm_loop.simps) (auto simp: next_token_drop [OF assms(1)] isType_def)


lemma unat_lit_ok: "0 \<le> sint (v :: cint) \<Longrightarrow> unat v \<le> 2147483647"
proof -
  assume nn: "0 \<le> sint v"
  have lt: "sint v < 2147483648" using sint_lt [of v] by simp
  have "uint v = take_bit 32 (sint v)" using uint_sint [of v] by simp
  also have "\<dots> = sint v"
    using nn lt by (intro take_bit_int_eq_self) simp_all
  finally have "uint v < 2147483648" using lt by simp
  moreover have "uint v = int (unat v)" by (rule uint_nat)
  ultimately have "int (unat v) < 2147483648" by (simp only:)
  then show ?thesis by linarith
qed

lemma stoi_str_unat: "0 \<le> sint (v :: cint) \<Longrightarrow> stoi (str (unat v)) = Inr v"
proof -
  assume "0 \<le> sint v"
  then have h: "unat v \<le> 2147483647" by (rule unat_lit_ok)
  have "stoi (str (unat v)) = Inr (of_nat (unat v))"
    by (simp only: stoi_str h if_True)
  also have "(of_nat (unat v) :: cint) = v" by simp
  finally show ?thesis .
qed

lemma primary_literal:
  assumes "0 \<le> sint v" and "drop i ts = Token INTEGER (str (unat v)) # post"
  shows "parsePrimary ts i = Inr (LiteralExpression v, Suc i)"
  by (subst parsePrimary.simps)
     (simp add: next_token_drop [OF assms(2)] isType_def stoi_str_unat [OF assms(1)])

lemma primary_paren:
  assumes rt: "\<And>ts i post. drop i ts = tokens_of TermLevel e @ post \<Longrightarrow>
      not_mul_at ts (i + length (tokens_of TermLevel e)) \<Longrightarrow>
      parseTerm ts i = parseTerm_loop ts e (i + length (tokens_of TermLevel e))"
    and tk: "tokens_of PrimaryLevel e =
      Token LPARENTHESIS ''('' # tokens_of TermLevel e @ [Token RPARENTHESIS '')'']"
    and d: "drop i ts = tokens_of PrimaryLevel e @ post"
  shows "parsePrimary ts i = Inr (e, i + length (tokens_of PrimaryLevel e))"
proof -
  let ?n = "length (tokens_of TermLevel e)"
  from d tk have d0: "drop i ts = Token LPARENTHESIS ''('' #
      (tokens_of TermLevel e @ Token RPARENTHESIS '')'' # post)" by simp
  then have d1: "drop (Suc i) ts = tokens_of TermLevel e @ Token RPARENTHESIS '')'' # post"
    by (rule drop_next)
  then have d2: "drop (Suc i + ?n) ts = Token RPARENTHESIS '')'' # post"
    by (rule drop_shift)
  have nm: "not_mul_at ts (Suc i + ?n)"
    using d2 by (rule not_mul_at_drop) simp
  have no: "not_op_at ts (Suc i + ?n)"
    using d2 by (auto simp: not_op_at_def isOperator_def dest: nth_via_drop)
  have t: "parseTerm ts (Suc i) = Inr (e, Suc i + ?n)"
    using rt [OF d1 nm] parseTerm_loop_stop [OF no] by simp
  have t': "parseTerm ts (Suc i) = Inr (e, Suc (i + ?n))" using t by simp
  have nt: "next_token ts (Suc (i + ?n)) = (Some (Token RPARENTHESIS '')''), Suc (Suc (i + ?n)))"
    using next_token_drop [OF d2] by simp
  have "parsePrimary ts i = Inr (e, Suc (Suc (i + ?n)))"
    by (subst parsePrimary.simps)
       (simp add: next_token_drop [OF d0] isType_def parseExpression.simps t' nt)
  then show ?thesis by (simp add: tk)
qed

lemma factor_of_primary:
  assumes rt: "\<And>ts i post. drop i ts = tokens_of PrimaryLevel e @ post \<Longrightarrow>
      parsePrimary ts i = Inr (e, i + length (tokens_of PrimaryLevel e))"
    and tk: "tokens_of FactorLevel e = tokens_of PrimaryLevel e"
    and d: "drop i ts = tokens_of FactorLevel e @ post"
  shows "parseFactor ts i = parseFactor_loop ts e (i + length (tokens_of FactorLevel e))"
  using rt [of i ts post] d tk by (subst parseFactor.simps) simp

lemma term_of_factor:
  assumes rt: "\<And>ts i post. drop i ts = tokens_of FactorLevel e @ post \<Longrightarrow>
      parseFactor ts i = parseFactor_loop ts e (i + length (tokens_of FactorLevel e))"
    and tk: "tokens_of TermLevel e = tokens_of FactorLevel e"
    and d: "drop i ts = tokens_of TermLevel e @ post"
    and nm: "not_mul_at ts (i + length (tokens_of TermLevel e))"
  shows "parseTerm ts i = parseTerm_loop ts e (i + length (tokens_of TermLevel e))"
proof -
  from rt [of i ts post] d tk nm
  have "parseFactor ts i = Inr (e, i + length (tokens_of TermLevel e))"
    by (simp add: parseFactor_loop_stop)
  then show ?thesis by (subst parseTerm.simps) simp
qed

lemma factor_mul:
  assumes rtl: "\<And>ts i post. drop i ts = tokens_of FactorLevel l @ post \<Longrightarrow>
      parseFactor ts i = parseFactor_loop ts l (i + length (tokens_of FactorLevel l))"
    and rtr: "\<And>ts i post. drop i ts = tokens_of PrimaryLevel r @ post \<Longrightarrow>
      parsePrimary ts i = Inr (r, i + length (tokens_of PrimaryLevel r))"
    and op: "(ty, mop) = (STAROPERATOR, StarBinaryOp) \<or> (ty, mop) = (SLASHOPERATOR, DivBinaryOp)"
    and tk: "tokens_of FactorLevel (mop l r) =
      tokens_of FactorLevel l @ Token ty s # tokens_of PrimaryLevel r"
    and d: "drop i ts = tokens_of FactorLevel (mop l r) @ post"
  shows "parseFactor ts i =
    parseFactor_loop ts (mop l r) (i + length (tokens_of FactorLevel (mop l r)))"
proof -
  let ?n = "length (tokens_of FactorLevel l)"
  let ?m = "length (tokens_of PrimaryLevel r)"
  from d tk have d0: "drop i ts =
      tokens_of FactorLevel l @ Token ty s # tokens_of PrimaryLevel r @ post" by simp
  then have d1: "drop (i + ?n) ts = Token ty s # tokens_of PrimaryLevel r @ post"
    by (rule drop_shift)
  then have d2: "drop (Suc (i + ?n)) ts = tokens_of PrimaryLevel r @ post" by (rule drop_next)
  have e: "i + length (tokens_of FactorLevel (mop l r)) = Suc (i + ?n) + ?m"
    by (simp add: tk)
  have "parseFactor ts i = parseFactor_loop ts l (i + ?n)" using d0 by (rule rtl)
  also have "\<dots> = parseFactor_loop ts (mop l r) (Suc (i + ?n) + ?m)"
    using d1 op rtr [OF d2] by (rule parseFactor_loop_step)
  finally show ?thesis unfolding e .
qed

lemma term_add:
  assumes rtl: "\<And>ts i post. drop i ts = tokens_of TermLevel l @ post \<Longrightarrow>
      not_mul_at ts (i + length (tokens_of TermLevel l)) \<Longrightarrow>
      parseTerm ts i = parseTerm_loop ts l (i + length (tokens_of TermLevel l))"
    and rtr: "\<And>ts i post. drop i ts = tokens_of FactorLevel r @ post \<Longrightarrow>
      parseFactor ts i = parseFactor_loop ts r (i + length (tokens_of FactorLevel r))"
    and op: "(ty, aop) = (PLUSOPERATOR, PlusBinaryOp) \<or> (ty, aop) = (MINUSOPERATOR, MinusBinaryOp)"
    and tk: "tokens_of TermLevel (aop l r) =
      tokens_of TermLevel l @ Token ty s # tokens_of FactorLevel r"
    and d: "drop i ts = tokens_of TermLevel (aop l r) @ post"
    and nm: "not_mul_at ts (i + length (tokens_of TermLevel (aop l r)))"
  shows "parseTerm ts i =
    parseTerm_loop ts (aop l r) (i + length (tokens_of TermLevel (aop l r)))"
proof -
  let ?n = "length (tokens_of TermLevel l)"
  let ?m = "length (tokens_of FactorLevel r)"
  from d tk have d0: "drop i ts =
      tokens_of TermLevel l @ Token ty s # tokens_of FactorLevel r @ post" by simp
  then have d1: "drop (i + ?n) ts = Token ty s # tokens_of FactorLevel r @ post"
    by (rule drop_shift)
  then have d2: "drop (Suc (i + ?n)) ts = tokens_of FactorLevel r @ post" by (rule drop_next)
  have nm1: "not_mul_at ts (i + ?n)"
    using d1 by (rule not_mul_at_drop) (use op in auto)
  have e: "i + length (tokens_of TermLevel (aop l r)) = Suc (i + ?n) + ?m" by (simp add: tk)
  have "parseFactor ts (Suc (i + ?n)) = parseFactor_loop ts r (Suc (i + ?n) + ?m)"
    using d2 by (rule rtr)
  also have "\<dots> = Inr (r, Suc (i + ?n) + ?m)"
    using nm unfolding e by (rule parseFactor_loop_stop)
  finally have f: "parseFactor ts (Suc (i + ?n)) = Inr (r, Suc (i + ?n) + ?m)" .
  have "parseTerm ts i = parseTerm_loop ts l (i + ?n)" using d0 nm1 by (rule rtl)
  also have "\<dots> = parseTerm_loop ts (aop l r) (Suc (i + ?n) + ?m)"
    using d1 op f by (rule parseTerm_loop_step)
  finally show ?thesis unfolding e .
qed

lemma round_trip:
  "lit_ok e \<Longrightarrow>
   (\<forall>ts i post. drop i ts = tokens_of PrimaryLevel e @ post \<longrightarrow>
      parsePrimary ts i = Inr (e, i + length (tokens_of PrimaryLevel e)))
   \<and> (\<forall>ts i post. drop i ts = tokens_of FactorLevel e @ post \<longrightarrow>
      parseFactor ts i = parseFactor_loop ts e (i + length (tokens_of FactorLevel e)))
   \<and> (\<forall>ts i post. drop i ts = tokens_of TermLevel e @ post \<longrightarrow>
      not_mul_at ts (i + length (tokens_of TermLevel e)) \<longrightarrow>
      parseTerm ts i = parseTerm_loop ts e (i + length (tokens_of TermLevel e)))"
proof (induction e)
  case (LiteralExpression v)
  then have nn: "0 \<le> sint v" by simp
  have p: "parsePrimary ts i = Inr (LiteralExpression v,
      i + length (tokens_of PrimaryLevel (LiteralExpression v)))"
    if "drop i ts = tokens_of PrimaryLevel (LiteralExpression v) @ post" for ts i post
    using primary_literal [OF nn, of i ts post] that by simp
  have f: "parseFactor ts i = parseFactor_loop ts (LiteralExpression v)
      (i + length (tokens_of FactorLevel (LiteralExpression v)))"
    if "drop i ts = tokens_of FactorLevel (LiteralExpression v) @ post" for ts i post
    by (rule factor_of_primary [OF p _ that]) simp_all
  have t: "parseTerm ts i = parseTerm_loop ts (LiteralExpression v)
      (i + length (tokens_of TermLevel (LiteralExpression v)))"
    if "drop i ts = tokens_of TermLevel (LiteralExpression v) @ post"
      "not_mul_at ts (i + length (tokens_of TermLevel (LiteralExpression v)))" for ts i post
    by (rule term_of_factor [OF f _ that]) simp_all
  from p f t show ?case by blast
next
  case (PlusBinaryOp l r)
  let ?e = "PlusBinaryOp l r"
  from PlusBinaryOp have il: "\<And>ts i post. drop i ts = tokens_of TermLevel l @ post \<Longrightarrow>
      not_mul_at ts (i + length (tokens_of TermLevel l)) \<Longrightarrow>
      parseTerm ts i = parseTerm_loop ts l (i + length (tokens_of TermLevel l))"
    and ir: "\<And>ts i post. drop i ts = tokens_of FactorLevel r @ post \<Longrightarrow>
      parseFactor ts i = parseFactor_loop ts r (i + length (tokens_of FactorLevel r))"
    by auto
  have t: "parseTerm ts i = parseTerm_loop ts ?e (i + length (tokens_of TermLevel ?e))"
    if "drop i ts = tokens_of TermLevel ?e @ post"
      "not_mul_at ts (i + length (tokens_of TermLevel ?e))" for ts i post
    by (rule term_add [where ty = PLUSOPERATOR and s = "''+''" and aop = PlusBinaryOp and l = l and r = r,
          OF il ir _ _ that])
       (simp_all add: paren_tokens_def)
  have p: "parsePrimary ts i = Inr (?e, i + length (tokens_of PrimaryLevel ?e))"
    if "drop i ts = tokens_of PrimaryLevel ?e @ post" for ts i post
    by (rule primary_paren [OF t _ that]) (simp_all add: paren_tokens_def)
  have f: "parseFactor ts i = parseFactor_loop ts ?e (i + length (tokens_of FactorLevel ?e))"
    if "drop i ts = tokens_of FactorLevel ?e @ post" for ts i post
    by (rule factor_of_primary [OF p _ that]) simp_all
  from p f t show ?case by blast
next
  case (MinusBinaryOp l r)
  let ?e = "MinusBinaryOp l r"
  from MinusBinaryOp have il: "\<And>ts i post. drop i ts = tokens_of TermLevel l @ post \<Longrightarrow>
      not_mul_at ts (i + length (tokens_of TermLevel l)) \<Longrightarrow>
      parseTerm ts i = parseTerm_loop ts l (i + length (tokens_of TermLevel l))"
    and ir: "\<And>ts i post. drop i ts = tokens_of FactorLevel r @ post \<Longrightarrow>
      parseFactor ts i = parseFactor_loop ts r (i + length (tokens_of FactorLevel r))"
    by auto
  have t: "parseTerm ts i = parseTerm_loop ts ?e (i + length (tokens_of TermLevel ?e))"
    if "drop i ts = tokens_of TermLevel ?e @ post"
      "not_mul_at ts (i + length (tokens_of TermLevel ?e))" for ts i post
    by (rule term_add [where ty = MINUSOPERATOR and s = "''-''" and aop = MinusBinaryOp and l = l and r = r,
          OF il ir _ _ that])
       (simp_all add: paren_tokens_def)
  have p: "parsePrimary ts i = Inr (?e, i + length (tokens_of PrimaryLevel ?e))"
    if "drop i ts = tokens_of PrimaryLevel ?e @ post" for ts i post
    by (rule primary_paren [OF t _ that]) (simp_all add: paren_tokens_def)
  have f: "parseFactor ts i = parseFactor_loop ts ?e (i + length (tokens_of FactorLevel ?e))"
    if "drop i ts = tokens_of FactorLevel ?e @ post" for ts i post
    by (rule factor_of_primary [OF p _ that]) simp_all
  from p f t show ?case by blast
next
  case (StarBinaryOp l r)
  let ?e = "StarBinaryOp l r"
  from StarBinaryOp have il: "\<And>ts i post. drop i ts = tokens_of FactorLevel l @ post \<Longrightarrow>
      parseFactor ts i = parseFactor_loop ts l (i + length (tokens_of FactorLevel l))"
    and ir: "\<And>ts i post. drop i ts = tokens_of PrimaryLevel r @ post \<Longrightarrow>
      parsePrimary ts i = Inr (r, i + length (tokens_of PrimaryLevel r))"
    by auto
  have f: "parseFactor ts i = parseFactor_loop ts ?e (i + length (tokens_of FactorLevel ?e))"
    if "drop i ts = tokens_of FactorLevel ?e @ post" for ts i post
    by (rule factor_mul [where ty = STAROPERATOR and s = "''*''" and mop = StarBinaryOp and l = l and r = r,
          OF il ir _ _ that])
       (simp_all add: paren_tokens_def)
  have t: "parseTerm ts i = parseTerm_loop ts ?e (i + length (tokens_of TermLevel ?e))"
    if "drop i ts = tokens_of TermLevel ?e @ post"
      "not_mul_at ts (i + length (tokens_of TermLevel ?e))" for ts i post
    by (rule term_of_factor [OF f _ that]) simp_all
  have p: "parsePrimary ts i = Inr (?e, i + length (tokens_of PrimaryLevel ?e))"
    if "drop i ts = tokens_of PrimaryLevel ?e @ post" for ts i post
    by (rule primary_paren [OF t _ that]) (simp_all add: paren_tokens_def)
  from p f t show ?case by blast
next
  case (DivBinaryOp l r)
  let ?e = "DivBinaryOp l r"
  from DivBinaryOp have il: "\<And>ts i post. drop i ts = tokens_of FactorLevel l @ post \<Longrightarrow>
      parseFactor ts i = parseFactor_loop ts l (i + length (tokens_of FactorLevel l))"
    and ir: "\<And>ts i post. drop i ts = tokens_of PrimaryLevel r @ post \<Longrightarrow>
      parsePrimary ts i = Inr (r, i + length (tokens_of PrimaryLevel r))"
    by auto
  have f: "parseFactor ts i = parseFactor_loop ts ?e (i + length (tokens_of FactorLevel ?e))"
    if "drop i ts = tokens_of FactorLevel ?e @ post" for ts i post
    by (rule factor_mul [where ty = SLASHOPERATOR and s = "''/''" and mop = DivBinaryOp and l = l and r = r,
          OF il ir _ _ that])
       (simp_all add: paren_tokens_def)
  have t: "parseTerm ts i = parseTerm_loop ts ?e (i + length (tokens_of TermLevel ?e))"
    if "drop i ts = tokens_of TermLevel ?e @ post"
      "not_mul_at ts (i + length (tokens_of TermLevel ?e))" for ts i post
    by (rule term_of_factor [OF f _ that]) simp_all
  have p: "parsePrimary ts i = Inr (?e, i + length (tokens_of PrimaryLevel ?e))"
    if "drop i ts = tokens_of PrimaryLevel ?e @ post" for ts i post
    by (rule primary_paren [OF t _ that]) (simp_all add: paren_tokens_def)
  from p f t show ?case by blast
qed

lemma parse_tokens_of:
  assumes "lit_ok e"
  shows "parse (tokens_of TermLevel e) = Inr (e, length (tokens_of TermLevel e))"
proof -
  let ?ts = "tokens_of TermLevel e"
  have nm: "not_mul_at ?ts (0 + length ?ts)" by (simp add: not_mul_at_def)
  have no: "not_op_at ?ts (length ?ts)" by (simp add: not_op_at_def)
  from round_trip [OF assms] have "parseTerm ?ts 0 = parseTerm_loop ?ts e (0 + length ?ts)"
    using nm by (auto simp del: add_0)
  then show ?thesis
    using parseTerm_loop_stop [OF no] by (simp add: parse_def parseExpression.simps)
qed


section \<open>The tokenizer on the text of an expression\<close>

text \<open>
  The text of an expression has the tokens of the expression, so \<open>evaluate\<close> on the text of
  an expression is the value of the expression.
\<close>

lemma prepend_tokens_prepend:
  "prepend_tokens a (prepend_tokens b x) = prepend_tokens (a @ b) x"
  by (cases x) (simp_all add: prepend_tokens_def)

lemma prepend_tokens_Inr: "prepend_tokens a (Inr ts) = Inr (a @ ts)"
  by (simp add: prepend_tokens_def)

lemma lex_digits_rest:
  assumes "ds \<noteq> []" "\<forall>c\<in>set ds. isdigit c" "rest = [] \<or> \<not> isdigit (hd rest)"
  shows "lex (ds @ rest) = prepend_tokens [Token INTEGER ds] (lex rest)"
  using lex_digits [OF assms] by (cases "lex rest") (simp_all add: prepend_tokens_def)

lemma lex_str_rest:
  "rest = [] \<or> \<not> isdigit (hd rest) \<Longrightarrow>
   lex (str n @ rest) = prepend_tokens [Token INTEGER (str n)] (lex rest)"
  using str_digits [of n] by (intro lex_digits_rest) auto

lemma lex_symbol_rest:
  "lex (CHR ''+'' # cs) = prepend_tokens [Token PLUSOPERATOR ''+''] (lex cs)"
  "lex (CHR ''-'' # cs) = prepend_tokens [Token MINUSOPERATOR ''-''] (lex cs)"
  "lex (CHR ''*'' # cs) = prepend_tokens [Token STAROPERATOR ''*''] (lex cs)"
  "lex (CHR ''/'' # cs) = prepend_tokens [Token SLASHOPERATOR ''/''] (lex cs)"
  "lex (CHR ''('' # cs) = prepend_tokens [Token LPARENTHESIS ''(''] (lex cs)"
  "lex (CHR '')'' # cs) = prepend_tokens [Token RPARENTHESIS '')''] (lex cs)"
  by (cases "lex cs"; simp add: isspace_def isdigit_def switch_token_def prepend_tokens_def)+

lemma not_isdigit_symbol:
  "\<not> isdigit CHR ''+''" "\<not> isdigit CHR ''-''" "\<not> isdigit CHR ''*''" "\<not> isdigit CHR ''/''"
  "\<not> isdigit CHR ''(''" "\<not> isdigit CHR '')''"
  by (simp_all add: isdigit_def)

lemma lex_text_of:
  "lit_ok e \<Longrightarrow> rest = [] \<or> \<not> isdigit (hd rest) \<Longrightarrow>
   lex (text_of lvl e @ rest) = prepend_tokens (tokens_of lvl e) (lex rest)"
proof (induction e arbitrary: lvl rest)
  case (LiteralExpression v)
  then show ?case by (simp add: lex_str_rest)
next
  case (PlusBinaryOp l r)
  then show ?case
    by (simp del: lex.simps(2)
        add: paren_text_def paren_tokens_def lex_symbol_rest not_isdigit_symbol
          prepend_tokens_prepend)
next
  case (MinusBinaryOp l r)
  then show ?case
    by (simp del: lex.simps(2)
        add: paren_text_def paren_tokens_def lex_symbol_rest not_isdigit_symbol
          prepend_tokens_prepend)
next
  case (StarBinaryOp l r)
  then show ?case
    by (simp del: lex.simps(2)
        add: paren_text_def paren_tokens_def lex_symbol_rest not_isdigit_symbol
          prepend_tokens_prepend)
next
  case (DivBinaryOp l r)
  then show ?case
    by (simp del: lex.simps(2)
        add: paren_text_def paren_tokens_def lex_symbol_rest not_isdigit_symbol
          prepend_tokens_prepend)
qed

lemma tokenize_text_of:
  "lit_ok e \<Longrightarrow> tokenize (text_of lvl e) = Inr (tokens_of lvl e)"
  using lex_text_of [of e "[]" lvl] by (simp add: tokenize_lex prepend_tokens_Inr)

lemma evaluate_tokens:
  "tokenize s = Inr tokens \<Longrightarrow>
   evaluate s = (case parse tokens of Inl e \<Rightarrow> Inl e | Inr (expression, idx) \<Rightarrow> interpret_expr expression)"
  by (simp add: evaluate_def)

lemma evaluate_text_of:
  "lit_ok e \<Longrightarrow> evaluate (text_of TermLevel e) = interpret_expr e"
  by (simp add: evaluate_tokens [OF tokenize_text_of] parse_tokens_of)


section \<open>Expressions of three literals\<close>

text \<open>
  The expressions \<open>a+b*c\<close>, \<open>a-b-c\<close> and \<open>a/b/c\<close> on integer literals of any length,
  written with \<open>str\<close>: their tokens, the tree the parser builds from the tokens, and the
  number they evaluate to. A literal that does not fit an \<^verbatim>\<open>int\<close> makes \<open>stoi\<close> fail, with
  and without the parentheses.
\<close>

lemmas parser_simps = parse_def parseExpression.simps parseTerm.simps parseTerm_loop.simps
  parseFactor.simps parseFactor_loop.simps parsePrimary.simps next_token_def rewind_def
  isType_def

lemma lex_str_end: "lex (str n) = Inr [Token INTEGER (str n)]"
  using str_digits [of n] lex_digits [of "str n" "[]"] by simp

lemma lex_str_symbol:
  "\<not> isdigit ch \<Longrightarrow>
   lex (str n @ ch # cs) =
     (case lex (ch # cs) of Inl e \<Rightarrow> Inl e | Inr ts \<Rightarrow> Inr (Token INTEGER (str n) # ts))"
  using str_digits [of n] by (intro lex_digits) auto

lemma lex_symbol:
  "lex (CHR ''+'' # cs) = (case lex cs of Inl e \<Rightarrow> Inl e | Inr ts \<Rightarrow> Inr (Token PLUSOPERATOR ''+'' # ts))"
  "lex (CHR ''-'' # cs) = (case lex cs of Inl e \<Rightarrow> Inl e | Inr ts \<Rightarrow> Inr (Token MINUSOPERATOR ''-'' # ts))"
  "lex (CHR ''*'' # cs) = (case lex cs of Inl e \<Rightarrow> Inl e | Inr ts \<Rightarrow> Inr (Token STAROPERATOR ''*'' # ts))"
  "lex (CHR ''/'' # cs) = (case lex cs of Inl e \<Rightarrow> Inl e | Inr ts \<Rightarrow> Inr (Token SLASHOPERATOR ''/'' # ts))"
  "lex (CHR ''('' # cs) = (case lex cs of Inl e \<Rightarrow> Inl e | Inr ts \<Rightarrow> Inr (Token LPARENTHESIS ''('' # ts))"
  "lex (CHR '')'' # cs) = (case lex cs of Inl e \<Rightarrow> Inl e | Inr ts \<Rightarrow> Inr (Token RPARENTHESIS '')'' # ts))"
  by (simp_all add: isspace_def isdigit_def switch_token_def)

lemmas lex_expr_simps = tokenize_lex lex_str_end lex_str_symbol lex_symbol not_isdigit_symbol

lemma tokenize_a_plus_b_star_c:
  "tokenize (str a @ ''+'' @ str b @ ''*'' @ str c) =
     Inr [Token INTEGER (str a), Token PLUSOPERATOR ''+'', Token INTEGER (str b),
          Token STAROPERATOR ''*'', Token INTEGER (str c)]"
  by (simp del: lex.simps(2) add: lex_expr_simps)

lemma tokenize_a_plus_paren_b_star_c:
  "tokenize (str a @ ''+('' @ str b @ ''*'' @ str c @ '')'') =
     Inr [Token INTEGER (str a), Token PLUSOPERATOR ''+'', Token LPARENTHESIS ''('',
          Token INTEGER (str b), Token STAROPERATOR ''*'', Token INTEGER (str c),
          Token RPARENTHESIS '')'']"
  by (simp del: lex.simps(2) add: lex_expr_simps)

lemma parse_a_plus_b_star_c:
  "parse [Token INTEGER sa, Token PLUSOPERATOR p, Token INTEGER sb, Token STAROPERATOR q,
      Token INTEGER sc] =
     (case stoi sa of Inl e \<Rightarrow> Inl e | Inr va \<Rightarrow>
      case stoi sb of Inl e \<Rightarrow> Inl e | Inr vb \<Rightarrow>
      case stoi sc of Inl e \<Rightarrow> Inl e | Inr vc \<Rightarrow>
        Inr (PlusBinaryOp (LiteralExpression va)
               (StarBinaryOp (LiteralExpression vb) (LiteralExpression vc)), 5))"
  by (cases "stoi sa"; cases "stoi sb"; cases "stoi sc") (simp_all add: parser_simps)

lemma parse_a_plus_paren_b_star_c:
  "parse [Token INTEGER sa, Token PLUSOPERATOR p, Token LPARENTHESIS l, Token INTEGER sb,
      Token STAROPERATOR q, Token INTEGER sc, Token RPARENTHESIS r] =
     (case stoi sa of Inl e \<Rightarrow> Inl e | Inr va \<Rightarrow>
      case stoi sb of Inl e \<Rightarrow> Inl e | Inr vb \<Rightarrow>
      case stoi sc of Inl e \<Rightarrow> Inl e | Inr vc \<Rightarrow>
        Inr (PlusBinaryOp (LiteralExpression va)
               (StarBinaryOp (LiteralExpression vb) (LiteralExpression vc)), 7))"
  by (cases "stoi sa"; cases "stoi sb"; cases "stoi sc") (simp_all add: parser_simps)

lemma stoi_str_small: "n \<le> 2147483647 \<Longrightarrow> stoi (str n) = Inr (of_nat n)"
  by (simp add: stoi_str)

lemma precedence_literals:
  "tokenize (str a @ ''+'' @ str b @ ''*'' @ str c) =
      Inr [Token INTEGER (str a), Token PLUSOPERATOR ''+'', Token INTEGER (str b),
           Token STAROPERATOR ''*'', Token INTEGER (str c)]
   \<and> evaluate (str a @ ''+'' @ str b @ ''*'' @ str c)
       = evaluate (str a @ ''+('' @ str b @ ''*'' @ str c @ '')'')
   \<and> (a \<le> 2147483647 \<and> b \<le> 2147483647 \<and> c \<le> 2147483647 \<longrightarrow>
        parse [Token INTEGER (str a), Token PLUSOPERATOR ''+'', Token INTEGER (str b),
               Token STAROPERATOR ''*'', Token INTEGER (str c)]
          = Inr (PlusBinaryOp (LiteralExpression (of_nat a))
                   (StarBinaryOp (LiteralExpression (of_nat b)) (LiteralExpression (of_nat c))),
                 5)
        \<and> evaluate (str a @ ''+'' @ str b @ ''*'' @ str c)
            = Inr (of_nat (a + b * c)))
   \<and> evaluate ''1+2*3'' = Inr 7
   \<and> evaluate ''(1+2)*3'' = Inr 9"
proof -
  have 1: "evaluate (str a @ ''+'' @ str b @ ''*'' @ str c)
       = evaluate (str a @ ''+('' @ str b @ ''*'' @ str c @ '')'')"
    unfolding evaluate_tokens [OF tokenize_a_plus_b_star_c]
      evaluate_tokens [OF tokenize_a_plus_paren_b_star_c]
    by (cases "stoi (str a)"; cases "stoi (str b)"; cases "stoi (str c)")
       (simp_all add: parse_a_plus_b_star_c parse_a_plus_paren_b_star_c)
  have 2: "parse [Token INTEGER (str a), Token PLUSOPERATOR ''+'', Token INTEGER (str b),
               Token STAROPERATOR ''*'', Token INTEGER (str c)]
          = Inr (PlusBinaryOp (LiteralExpression (of_nat a))
                   (StarBinaryOp (LiteralExpression (of_nat b)) (LiteralExpression (of_nat c))),
                 5)"
    if "a \<le> 2147483647" "b \<le> 2147483647" "c \<le> 2147483647"
    using that by (simp add: parse_a_plus_b_star_c stoi_str_small)
  have 3: "evaluate (str a @ ''+'' @ str b @ ''*'' @ str c)
            = Inr (of_nat (a + b * c))"
    if "a \<le> 2147483647" "b \<le> 2147483647" "c \<le> 2147483647"
    unfolding evaluate_tokens [OF tokenize_a_plus_b_star_c] using 2 [OF that] by simp
  have 4: "evaluate ''1+2*3'' = Inr 7" by code_simp
  have 5: "evaluate ''(1+2)*3'' = Inr 9" by code_simp
  from tokenize_a_plus_b_star_c [of a b c] 1 2 3 4 5 show ?thesis by blast
qed

lemma tokenize_a_minus_b_minus_c:
  "tokenize (str a @ ''-'' @ str b @ ''-'' @ str c) =
     Inr [Token INTEGER (str a), Token MINUSOPERATOR ''-'', Token INTEGER (str b),
          Token MINUSOPERATOR ''-'', Token INTEGER (str c)]"
  by (simp del: lex.simps(2) add: lex_expr_simps)

lemma tokenize_paren_a_minus_b_minus_c:
  "tokenize (''('' @ str a @ ''-'' @ str b @ '')-'' @ str c) =
     Inr [Token LPARENTHESIS ''('', Token INTEGER (str a), Token MINUSOPERATOR ''-'',
          Token INTEGER (str b), Token RPARENTHESIS '')'', Token MINUSOPERATOR ''-'',
          Token INTEGER (str c)]"
  by (simp del: lex.simps(2) add: lex_expr_simps)

lemma tokenize_a_slash_b_slash_c:
  "tokenize (str a @ ''/'' @ str b @ ''/'' @ str c) =
     Inr [Token INTEGER (str a), Token SLASHOPERATOR ''/'', Token INTEGER (str b),
          Token SLASHOPERATOR ''/'', Token INTEGER (str c)]"
  by (simp del: lex.simps(2) add: lex_expr_simps)

lemma tokenize_paren_a_slash_b_slash_c:
  "tokenize (''('' @ str a @ ''/'' @ str b @ '')/'' @ str c) =
     Inr [Token LPARENTHESIS ''('', Token INTEGER (str a), Token SLASHOPERATOR ''/'',
          Token INTEGER (str b), Token RPARENTHESIS '')'', Token SLASHOPERATOR ''/'',
          Token INTEGER (str c)]"
  by (simp del: lex.simps(2) add: lex_expr_simps)

lemma parse_a_minus_b_minus_c:
  "parse [Token INTEGER sa, Token MINUSOPERATOR p, Token INTEGER sb, Token MINUSOPERATOR q,
      Token INTEGER sc] =
     (case stoi sa of Inl e \<Rightarrow> Inl e | Inr va \<Rightarrow>
      case stoi sb of Inl e \<Rightarrow> Inl e | Inr vb \<Rightarrow>
      case stoi sc of Inl e \<Rightarrow> Inl e | Inr vc \<Rightarrow>
        Inr (MinusBinaryOp (MinusBinaryOp (LiteralExpression va) (LiteralExpression vb))
               (LiteralExpression vc), 5))"
  by (cases "stoi sa"; cases "stoi sb"; cases "stoi sc") (simp_all add: parser_simps)

lemma parse_paren_a_minus_b_minus_c:
  "parse [Token LPARENTHESIS l, Token INTEGER sa, Token MINUSOPERATOR p, Token INTEGER sb,
      Token RPARENTHESIS r, Token MINUSOPERATOR q, Token INTEGER sc] =
     (case stoi sa of Inl e \<Rightarrow> Inl e | Inr va \<Rightarrow>
      case stoi sb of Inl e \<Rightarrow> Inl e | Inr vb \<Rightarrow>
      case stoi sc of Inl e \<Rightarrow> Inl e | Inr vc \<Rightarrow>
        Inr (MinusBinaryOp (MinusBinaryOp (LiteralExpression va) (LiteralExpression vb))
               (LiteralExpression vc), 7))"
  by (cases "stoi sa"; cases "stoi sb"; cases "stoi sc") (simp_all add: parser_simps)

lemma parse_a_slash_b_slash_c:
  "parse [Token INTEGER sa, Token SLASHOPERATOR p, Token INTEGER sb, Token SLASHOPERATOR q,
      Token INTEGER sc] =
     (case stoi sa of Inl e \<Rightarrow> Inl e | Inr va \<Rightarrow>
      case stoi sb of Inl e \<Rightarrow> Inl e | Inr vb \<Rightarrow>
      case stoi sc of Inl e \<Rightarrow> Inl e | Inr vc \<Rightarrow>
        Inr (DivBinaryOp (DivBinaryOp (LiteralExpression va) (LiteralExpression vb))
               (LiteralExpression vc), 5))"
  by (cases "stoi sa"; cases "stoi sb"; cases "stoi sc") (simp_all add: parser_simps)

lemma parse_paren_a_slash_b_slash_c:
  "parse [Token LPARENTHESIS l, Token INTEGER sa, Token SLASHOPERATOR p, Token INTEGER sb,
      Token RPARENTHESIS r, Token SLASHOPERATOR q, Token INTEGER sc] =
     (case stoi sa of Inl e \<Rightarrow> Inl e | Inr va \<Rightarrow>
      case stoi sb of Inl e \<Rightarrow> Inl e | Inr vb \<Rightarrow>
      case stoi sc of Inl e \<Rightarrow> Inl e | Inr vc \<Rightarrow>
        Inr (DivBinaryOp (DivBinaryOp (LiteralExpression va) (LiteralExpression vb))
               (LiteralExpression vc), 7))"
  by (cases "stoi sa"; cases "stoi sb"; cases "stoi sc") (simp_all add: parser_simps)

lemma sint_of_nat_small: "n \<le> 2147483647 \<Longrightarrow> sint (of_nat n :: cint) = int n"
  by (simp add: signed_of_nat signed_take_bit_int_eq_self)

lemma of_nat_small_eq_0: "n \<le> 2147483647 \<Longrightarrow> (of_nat n :: cint) = 0 \<longleftrightarrow> n = 0"
  using sint_of_nat_small [of n] by (auto simp: signed_eq_0_iff [symmetric])

lemma cdiv_of_nat:
  assumes "a \<le> 2147483647" "b \<le> 2147483647"
  shows "cdiv (of_nat a) (of_nat b) = Inr (of_nat (a div b))"
proof -
  have "int a sdiv int b = int (a div b)"
    by (simp add: signed_divide_int_def sgn_if zdiv_int)
  with assms show ?thesis
    by (simp add: cdiv_def sint_of_nat_small)
qed

lemma left_associativity_literals:
  "evaluate (str a @ ''-'' @ str b @ ''-'' @ str c)
     = evaluate (''('' @ str a @ ''-'' @ str b @ '')-'' @ str c)
   \<and> evaluate (str a @ ''/'' @ str b @ ''/'' @ str c)
     = evaluate (''('' @ str a @ ''/'' @ str b @ '')/'' @ str c)
   \<and> (a \<le> 2147483647 \<and> b \<le> 2147483647 \<and> c \<le> 2147483647 \<longrightarrow>
        parse [Token INTEGER (str a), Token MINUSOPERATOR ''-'', Token INTEGER (str b),
               Token MINUSOPERATOR ''-'', Token INTEGER (str c)]
          = Inr (MinusBinaryOp
                   (MinusBinaryOp (LiteralExpression (of_nat a)) (LiteralExpression (of_nat b)))
                   (LiteralExpression (of_nat c)), 5)
        \<and> evaluate (str a @ ''-'' @ str b @ ''-'' @ str c)
            = Inr (word_of_int (int a - int b - int c))
        \<and> parse [Token INTEGER (str a), Token SLASHOPERATOR ''/'', Token INTEGER (str b),
               Token SLASHOPERATOR ''/'', Token INTEGER (str c)]
          = Inr (DivBinaryOp
                   (DivBinaryOp (LiteralExpression (of_nat a)) (LiteralExpression (of_nat b)))
                   (LiteralExpression (of_nat c)), 5)
        \<and> evaluate (str a @ ''/'' @ str b @ ''/'' @ str c)
            = (if b = 0 \<or> c = 0 then Inl DivisionByZero else Inr (of_nat (a div b div c))))
   \<and> evaluate ''10-2-3'' = Inr 5
   \<and> evaluate ''100/10/2'' = Inr 5"
proof -
  have 1: "evaluate (str a @ ''-'' @ str b @ ''-'' @ str c)
     = evaluate (''('' @ str a @ ''-'' @ str b @ '')-'' @ str c)"
    unfolding evaluate_tokens [OF tokenize_a_minus_b_minus_c]
      evaluate_tokens [OF tokenize_paren_a_minus_b_minus_c]
    by (cases "stoi (str a)"; cases "stoi (str b)"; cases "stoi (str c)")
       (simp_all add: parse_a_minus_b_minus_c parse_paren_a_minus_b_minus_c)
  have 2: "evaluate (str a @ ''/'' @ str b @ ''/'' @ str c)
     = evaluate (''('' @ str a @ ''/'' @ str b @ '')/'' @ str c)"
    unfolding evaluate_tokens [OF tokenize_a_slash_b_slash_c]
      evaluate_tokens [OF tokenize_paren_a_slash_b_slash_c]
    by (cases "stoi (str a)"; cases "stoi (str b)"; cases "stoi (str c)")
       (simp_all add: parse_a_slash_b_slash_c parse_paren_a_slash_b_slash_c)
  have 3: "parse [Token INTEGER (str a), Token MINUSOPERATOR ''-'', Token INTEGER (str b),
               Token MINUSOPERATOR ''-'', Token INTEGER (str c)]
          = Inr (MinusBinaryOp
                   (MinusBinaryOp (LiteralExpression (of_nat a)) (LiteralExpression (of_nat b)))
                   (LiteralExpression (of_nat c)), 5)"
    if "a \<le> 2147483647" "b \<le> 2147483647" "c \<le> 2147483647"
    using that by (simp add: parse_a_minus_b_minus_c stoi_str_small)
  have 4: "evaluate (str a @ ''-'' @ str b @ ''-'' @ str c)
            = Inr (word_of_int (int a - int b - int c))"
    if "a \<le> 2147483647" "b \<le> 2147483647" "c \<le> 2147483647"
    unfolding evaluate_tokens [OF tokenize_a_minus_b_minus_c] using 3 [OF that] by simp
  have 5: "parse [Token INTEGER (str a), Token SLASHOPERATOR ''/'', Token INTEGER (str b),
               Token SLASHOPERATOR ''/'', Token INTEGER (str c)]
          = Inr (DivBinaryOp
                   (DivBinaryOp (LiteralExpression (of_nat a)) (LiteralExpression (of_nat b)))
                   (LiteralExpression (of_nat c)), 5)"
    if "a \<le> 2147483647" "b \<le> 2147483647" "c \<le> 2147483647"
    using that by (simp add: parse_a_slash_b_slash_c stoi_str_small)
  have 6: "evaluate (str a @ ''/'' @ str b @ ''/'' @ str c)
            = (if b = 0 \<or> c = 0 then Inl DivisionByZero else Inr (of_nat (a div b div c)))"
    if "a \<le> 2147483647" "b \<le> 2147483647" "c \<le> 2147483647"
  proof -
    have "a div b \<le> 2147483647"
      using that(1) div_le_dividend [of a b] by linarith
    then have "cdiv (of_nat (a div b)) (of_nat c) = Inr (of_nat (a div b div c))"
      using that by (simp add: cdiv_of_nat)
    moreover have "cdiv (of_nat a) (of_nat b) = Inr (of_nat (a div b))"
      using that by (simp add: cdiv_of_nat)
    ultimately show ?thesis
      unfolding evaluate_tokens [OF tokenize_a_slash_b_slash_c]
      using 5 [OF that] that by (simp add: of_nat_small_eq_0)
  qed
  have 7: "evaluate ''10-2-3'' = Inr 5" by code_simp
  have 8: "evaluate ''100/10/2'' = Inr 5" by code_simp
  from 1 2 3 4 5 6 7 8 show ?thesis by blast
qed


section \<open>Chains\<close>

text \<open>
  Every level of \<open>tokens_of\<close> is read back by \<open>parse\<close>, and the text of a chain is the text
  of its left-nested tree.
\<close>

lemma parse_tokens_of_level:
  assumes "lit_ok e"
  shows "parse (tokens_of lvl e) = Inr (e, length (tokens_of lvl e))"
proof (cases lvl)
  case TermLevel
  then show ?thesis using parse_tokens_of [OF assms] by simp
next
  case FactorLevel
  let ?ts = "tokens_of FactorLevel e"
  have nm: "not_mul_at ?ts (length ?ts)" by (simp add: not_mul_at_def)
  have no: "not_op_at ?ts (length ?ts)" by (simp add: not_op_at_def)
  from round_trip [OF assms]
  have "parseFactor ?ts 0 = parseFactor_loop ?ts e (0 + length ?ts)"
    by (auto simp del: add_0)
  with nm have "parseFactor ?ts 0 = Inr (e, length ?ts)"
    by (simp add: parseFactor_loop_stop)
  with FactorLevel show ?thesis
    using parseTerm_loop_stop [OF no]
    by (simp add: parse_def parseExpression.simps parseTerm.simps)
next
  case PrimaryLevel
  let ?ts = "tokens_of PrimaryLevel e"
  have nm: "not_mul_at ?ts (length ?ts)" by (simp add: not_mul_at_def)
  have no: "not_op_at ?ts (length ?ts)" by (simp add: not_op_at_def)
  from round_trip [OF assms]
  have "parsePrimary ?ts 0 = Inr (e, 0 + length ?ts)"
    by (auto simp del: add_0)
  with nm have "parseFactor ?ts 0 = Inr (e, length ?ts)"
    by (subst parseFactor.simps) (simp add: parseFactor_loop_stop)
  with PrimaryLevel show ?thesis
    using parseTerm_loop_stop [OF no]
    by (simp add: parse_def parseExpression.simps parseTerm.simps)
qed

lemma evaluate_text_of_level:
  "lit_ok e \<Longrightarrow> evaluate (text_of lvl e) = interpret_expr e"
  by (simp add: evaluate_tokens [OF tokenize_text_of] parse_tokens_of_level)

lemma additive_cases:
  "(aop, ac) \<in> set additive \<Longrightarrow>
   (aop = PlusBinaryOp \<and> ac = CHR ''+'') \<or> (aop = MinusBinaryOp \<and> ac = CHR ''-'')"
  by (auto simp: additive_def)

lemma multiplicative_cases:
  "(mop, mc) \<in> set multiplicative \<Longrightarrow>
   (mop = StarBinaryOp \<and> mc = CHR ''*'') \<or> (mop = DivBinaryOp \<and> mc = CHR ''/'')"
  by (auto simp: multiplicative_def)

lemma text_of_additive:
  "(aop, ac) \<in> set additive \<Longrightarrow>
   text_of TermLevel (aop l r) = text_of TermLevel l @ ac # text_of FactorLevel r"
  by (auto dest!: additive_cases simp: paren_text_def)

lemma text_of_multiplicative:
  "(mop, mc) \<in> set multiplicative \<Longrightarrow>
   text_of FactorLevel (mop l r) = text_of FactorLevel l @ mc # text_of PrimaryLevel r
   \<and> text_of TermLevel (mop l r) = text_of FactorLevel l @ mc # text_of PrimaryLevel r"
  by (auto dest!: multiplicative_cases simp: paren_text_def)

lemma lit_ok_operator:
  "(op, c) \<in> set additive \<or> (op, c) \<in> set multiplicative \<Longrightarrow>
   lit_ok (op l r) = (lit_ok l \<and> lit_ok r)"
  by (auto dest!: additive_cases multiplicative_cases)

lemma chain_additive:
  "\<forall>(oc, x)\<in>set chain. oc \<in> set additive \<and> lit_ok x \<Longrightarrow> lit_ok a \<Longrightarrow>
   lit_ok (chain_tree a chain)
   \<and> text_of TermLevel (chain_tree a chain) = chain_text TermLevel FactorLevel a chain"
proof (induction chain arbitrary: a)
  case Nil
  then show ?case by (simp add: chain_tree_def chain_text_def)
next
  case (Cons ocx chain)
  obtain op c x where ocx: "ocx = ((op, c), x)" by (cases ocx) auto
  with Cons.prems have op: "(op, c) \<in> set additive" and x: "lit_ok x" by auto
  have "lit_ok (op a x)"
    using op x Cons.prems(2) by (auto dest!: additive_cases multiplicative_cases)
  with Cons.IH [of "op a x"] Cons.prems(1)
  have "lit_ok (chain_tree (op a x) chain)
    \<and> text_of TermLevel (chain_tree (op a x) chain)
        = chain_text TermLevel FactorLevel (op a x) chain"
    by simp
  then show ?case
    by (simp add: ocx chain_tree_def chain_text_def text_of_additive [OF op])
qed

lemma chain_multiplicative:
  "\<forall>(oc, x)\<in>set chain. oc \<in> set multiplicative \<and> lit_ok x \<Longrightarrow> lit_ok a \<Longrightarrow>
   lit_ok (chain_tree a chain)
   \<and> text_of FactorLevel (chain_tree a chain) = chain_text FactorLevel PrimaryLevel a chain"
proof (induction chain arbitrary: a)
  case Nil
  then show ?case by (simp add: chain_tree_def chain_text_def)
next
  case (Cons ocx chain)
  obtain op c x where ocx: "ocx = ((op, c), x)" by (cases ocx) auto
  with Cons.prems have op: "(op, c) \<in> set multiplicative" and x: "lit_ok x" by auto
  have "lit_ok (op a x)"
    using op x Cons.prems(2) by (auto dest!: additive_cases multiplicative_cases)
  with Cons.IH [of "op a x"] Cons.prems(1)
  have "lit_ok (chain_tree (op a x) chain)
    \<and> text_of FactorLevel (chain_tree (op a x) chain)
        = chain_text FactorLevel PrimaryLevel (op a x) chain"
    by simp
  then show ?case
    by (simp add: ocx chain_tree_def chain_text_def text_of_multiplicative [OF op])
qed

lemma parsed_and_evaluated:
  assumes "lit_ok e" and "text_of lvl e = s"
  shows "(\<exists>tokens. tokenize s = Inr tokens \<and> parse tokens = Inr (e, length tokens))
    \<and> evaluate s = interpret_expr e"
  using assms tokenize_text_of [of e lvl] parse_tokens_of_level [of e lvl]
    evaluate_text_of_level [of e lvl]
  by auto


section \<open>Precedence\<close>

text \<open>
  Claim C2. Multiplicative operators bind tighter than additive ones, on either side. Let
  \<open>a\<close>, \<open>b\<close>, \<open>c\<close> be any expressions with non-negative literals, \<open>aop\<close> one of \<open>+\<close> and \<open>-\<close>
  and \<open>mop\<close> one of \<open>*\<close> and \<open>/\<close>. The text \<open>a aop b mop c\<close> (with \<open>a\<close> written as a term, \<open>b\<close>
  as a factor and \<open>c\<close> as a primary, so that an operand gets parentheses only where the
  grammar needs them) tokenizes, and the parser reads all its tokens as the tree
  \<open>aop a (mop b c)\<close>; \<open>evaluate\<close> gives the value of that tree. The text \<open>a mop b aop c\<close>
  is read as \<open>aop (mop a b) c\<close>, and evaluated so. More generally the parser reads the text
  of every expression \<open>e\<close> with non-negative literals, written with the fewest parentheses,
  back as \<open>e\<close>. On literals of any length, \<open>x+y*z\<close> has the five tokens one expects and the
  same outcome as \<open>x+(y*z)\<close>; when the three literals fit an \<^verbatim>\<open>int\<close>, the result is the
  number \<open>x + y * z\<close> as a 32-bit integer. In particular \<open>1+2*3\<close> evaluates to 7 and
  \<open>(1+2)*3\<close> to 9.
\<close>

theorem precedence:
  "(lit_ok a \<and> lit_ok b \<and> lit_ok c
      \<and> (aop, ac) \<in> set additive \<and> (mop, mc) \<in> set multiplicative \<longrightarrow>
      (\<exists>tokens.
          tokenize (text_of TermLevel a @ ac # text_of FactorLevel b @ mc # text_of PrimaryLevel c)
            = Inr tokens
          \<and> parse tokens = Inr (aop a (mop b c), length tokens))
      \<and> evaluate (text_of TermLevel a @ ac # text_of FactorLevel b @ mc # text_of PrimaryLevel c)
          = interpret_expr (aop a (mop b c))
      \<and> (\<exists>tokens.
          tokenize (text_of FactorLevel a @ mc # text_of PrimaryLevel b @ ac # text_of FactorLevel c)
            = Inr tokens
          \<and> parse tokens = Inr (aop (mop a b) c, length tokens))
      \<and> evaluate (text_of FactorLevel a @ mc # text_of PrimaryLevel b @ ac # text_of FactorLevel c)
          = interpret_expr (aop (mop a b) c))
   \<and> (lit_ok e \<longrightarrow>
        (\<exists>tokens. tokenize (text_of TermLevel e) = Inr tokens
           \<and> parse tokens = Inr (e, length tokens))
        \<and> evaluate (text_of TermLevel e) = interpret_expr e)
   \<and> (tokenize (str x @ ''+'' @ str y @ ''*'' @ str z) =
      Inr [Token INTEGER (str x), Token PLUSOPERATOR ''+'', Token INTEGER (str y),
           Token STAROPERATOR ''*'', Token INTEGER (str z)]
   \<and> evaluate (str x @ ''+'' @ str y @ ''*'' @ str z)
       = evaluate (str x @ ''+('' @ str y @ ''*'' @ str z @ '')'')
   \<and> (x \<le> 2147483647 \<and> y \<le> 2147483647 \<and> z \<le> 2147483647 \<longrightarrow>
        parse [Token INTEGER (str x), Token PLUSOPERATOR ''+'', Token INTEGER (str y),
               Token STAROPERATOR ''*'', Token INTEGER (str z)]
          = Inr (PlusBinaryOp (LiteralExpression (of_nat x))
                   (StarBinaryOp (LiteralExpression (of_nat y)) (LiteralExpression (of_nat z))),
                 5)
        \<and> evaluate (str x @ ''+'' @ str y @ ''*'' @ str z)
            = Inr (of_nat (x + y * z)))
   \<and> evaluate ''1+2*3'' = Inr 7
   \<and> evaluate ''(1+2)*3'' = Inr 9)"
proof -
  have g: "(\<exists>tokens.
          tokenize (text_of TermLevel a @ ac # text_of FactorLevel b @ mc # text_of PrimaryLevel c)
            = Inr tokens
          \<and> parse tokens = Inr (aop a (mop b c), length tokens))
      \<and> evaluate (text_of TermLevel a @ ac # text_of FactorLevel b @ mc # text_of PrimaryLevel c)
          = interpret_expr (aop a (mop b c))"
    if ok: "lit_ok a" "lit_ok b" "lit_ok c"
      and ao: "(aop, ac) \<in> set additive" and mo: "(mop, mc) \<in> set multiplicative"
  proof (rule parsed_and_evaluated [where lvl = TermLevel])
    show "lit_ok (aop a (mop b c))"
      using ok ao mo by (auto dest!: additive_cases multiplicative_cases)
    show "text_of TermLevel (aop a (mop b c)) =
        text_of TermLevel a @ ac # text_of FactorLevel b @ mc # text_of PrimaryLevel c"
      by (simp add: text_of_additive [OF ao] text_of_multiplicative [OF mo])
  qed
  have h: "(\<exists>tokens.
          tokenize (text_of FactorLevel a @ mc # text_of PrimaryLevel b @ ac # text_of FactorLevel c)
            = Inr tokens
          \<and> parse tokens = Inr (aop (mop a b) c, length tokens))
      \<and> evaluate (text_of FactorLevel a @ mc # text_of PrimaryLevel b @ ac # text_of FactorLevel c)
          = interpret_expr (aop (mop a b) c)"
    if ok: "lit_ok a" "lit_ok b" "lit_ok c"
      and ao: "(aop, ac) \<in> set additive" and mo: "(mop, mc) \<in> set multiplicative"
  proof (rule parsed_and_evaluated [where lvl = TermLevel])
    show "lit_ok (aop (mop a b) c)"
      using ok ao mo by (auto dest!: additive_cases multiplicative_cases)
    show "text_of TermLevel (aop (mop a b) c) =
        text_of FactorLevel a @ mc # text_of PrimaryLevel b @ ac # text_of FactorLevel c"
      by (simp add: text_of_additive [OF ao] text_of_multiplicative [OF mo])
  qed
  have r: "(\<exists>tokens. tokenize (text_of TermLevel e) = Inr tokens
           \<and> parse tokens = Inr (e, length tokens))
        \<and> evaluate (text_of TermLevel e) = interpret_expr e" if "lit_ok e"
    using that by (rule parsed_and_evaluated) simp
  from g h r precedence_literals [of x y z] show ?thesis by blast
qed

theorem precedence_witness:
  "evaluate ''2*3+4'' = Inr 10 \<and> evaluate ''2+3*4'' = Inr 14
   \<and> evaluate ''8-6/2'' = Inr 5 \<and> evaluate ''8/2-1'' = Inr 3
   \<and> evaluate ''1+2-3*(4+1)'' = Inr (- 12)"
proof -
  have s: "str 1 = ''1''" "str 2 = ''2''" "str 3 = ''3''" "str 4 = ''4''" "str 6 = ''6''"
    "str 8 = ''8''"
    by (simp_all add: str.simps char_of_def bit_Suc_0_iff)
  have m: "(PlusBinaryOp, CHR ''+'') \<in> set additive" "(MinusBinaryOp, CHR ''-'') \<in> set additive"
    "(StarBinaryOp, CHR ''*'') \<in> set multiplicative"
    "(DivBinaryOp, CHR ''/'') \<in> set multiplicative"
    by (simp_all add: additive_def multiplicative_def)
  note p = precedence [THEN conjunct1, rule_format]
  from p [of "LiteralExpression 2" "LiteralExpression 3" "LiteralExpression 4"
      PlusBinaryOp "CHR ''+''" StarBinaryOp "CHR ''*''"]
    p [of "LiteralExpression 8" "LiteralExpression 6" "LiteralExpression 2"
      MinusBinaryOp "CHR ''-''" DivBinaryOp "CHR ''/''"]
    p [of "LiteralExpression 8" "LiteralExpression 2" "LiteralExpression 1"
      MinusBinaryOp "CHR ''-''" DivBinaryOp "CHR ''/''"]
    p [of "PlusBinaryOp (LiteralExpression 1) (LiteralExpression 2)" "LiteralExpression 3"
      "PlusBinaryOp (LiteralExpression 4) (LiteralExpression 1)"
      MinusBinaryOp "CHR ''-''" StarBinaryOp "CHR ''*''"]
    m s
  show ?thesis by (simp add: paren_text_def cdiv_def)
qed


section \<open>Associativity\<close>

text \<open>
  Claim C3. Chains of operators of the same precedence fold to the left. Let \<open>a\<close> be an
  expression with non-negative literals, followed by any number of operators among \<open>+\<close> and
  \<open>-\<close>, in any mix, each with an operand with non-negative literals (\<open>a\<close> written as a term,
  the other operands as factors). The text of the chain tokenizes, the parser reads all its
  tokens as the tree nested to the left, \<open>chain_tree a chain\<close>, and \<open>evaluate\<close> gives the
  value of that tree. The same holds of a chain of \<open>*\<close> and \<open>/\<close> (\<open>a\<close> written as a factor, the
  other operands as primaries). On literals of any length, \<open>x-y-z\<close> has the same outcome as
  \<open>(x-y)-z\<close> and \<open>x/y/z\<close> the same as \<open>(x/y)/z\<close>; when the three literals fit an \<^verbatim>\<open>int\<close>,
  \<open>x-y-z\<close> evaluates to the number \<open>x - y - z\<close> as a 32-bit integer, and \<open>x/y/z\<close> fails
  with \<open>DivisionByZero\<close> when \<open>y\<close> or \<open>z\<close> is zero and evaluates to \<open>(x div y) div z\<close>
  otherwise. In particular \<open>10-2-3\<close> and \<open>100/10/2\<close> both evaluate to 5.
\<close>

theorem left_associativity:
  "((\<forall>(oc, x)\<in>set chain. oc \<in> set additive \<and> lit_ok x) \<and> lit_ok a \<longrightarrow>
      (\<exists>tokens. tokenize (chain_text TermLevel FactorLevel a chain) = Inr tokens
         \<and> parse tokens = Inr (chain_tree a chain, length tokens))
      \<and> evaluate (chain_text TermLevel FactorLevel a chain) = interpret_expr (chain_tree a chain))
   \<and> ((\<forall>(oc, x)\<in>set chain. oc \<in> set multiplicative \<and> lit_ok x) \<and> lit_ok a \<longrightarrow>
      (\<exists>tokens. tokenize (chain_text FactorLevel PrimaryLevel a chain) = Inr tokens
         \<and> parse tokens = Inr (chain_tree a chain, length tokens))
      \<and> evaluate (chain_text FactorLevel PrimaryLevel a chain)
          = interpret_expr (chain_tree a chain))
   \<and> (evaluate (str x @ ''-'' @ str y @ ''-'' @ str z)
     = evaluate (''('' @ str x @ ''-'' @ str y @ '')-'' @ str z)
   \<and> evaluate (str x @ ''/'' @ str y @ ''/'' @ str z)
     = evaluate (''('' @ str x @ ''/'' @ str y @ '')/'' @ str z)
   \<and> (x \<le> 2147483647 \<and> y \<le> 2147483647 \<and> z \<le> 2147483647 \<longrightarrow>
        parse [Token INTEGER (str x), Token MINUSOPERATOR ''-'', Token INTEGER (str y),
               Token MINUSOPERATOR ''-'', Token INTEGER (str z)]
          = Inr (MinusBinaryOp
                   (MinusBinaryOp (LiteralExpression (of_nat x)) (LiteralExpression (of_nat y)))
                   (LiteralExpression (of_nat z)), 5)
        \<and> evaluate (str x @ ''-'' @ str y @ ''-'' @ str z)
            = Inr (word_of_int (int x - int y - int z))
        \<and> parse [Token INTEGER (str x), Token SLASHOPERATOR ''/'', Token INTEGER (str y),
               Token SLASHOPERATOR ''/'', Token INTEGER (str z)]
          = Inr (DivBinaryOp
                   (DivBinaryOp (LiteralExpression (of_nat x)) (LiteralExpression (of_nat y)))
                   (LiteralExpression (of_nat z)), 5)
        \<and> evaluate (str x @ ''/'' @ str y @ ''/'' @ str z)
            = (if y = 0 \<or> z = 0 then Inl DivisionByZero else Inr (of_nat (x div y div z))))
   \<and> evaluate ''10-2-3'' = Inr 5
   \<and> evaluate ''100/10/2'' = Inr 5)"
proof -
  have g: "(\<exists>tokens. tokenize (chain_text TermLevel FactorLevel a chain) = Inr tokens
         \<and> parse tokens = Inr (chain_tree a chain, length tokens))
      \<and> evaluate (chain_text TermLevel FactorLevel a chain) = interpret_expr (chain_tree a chain)"
    if "\<forall>(oc, x)\<in>set chain. oc \<in> set additive \<and> lit_ok x" "lit_ok a"
    using chain_additive [OF that] by (intro parsed_and_evaluated [where lvl = TermLevel]) simp_all
  have h: "(\<exists>tokens. tokenize (chain_text FactorLevel PrimaryLevel a chain) = Inr tokens
         \<and> parse tokens = Inr (chain_tree a chain, length tokens))
      \<and> evaluate (chain_text FactorLevel PrimaryLevel a chain)
          = interpret_expr (chain_tree a chain)"
    if "\<forall>(oc, x)\<in>set chain. oc \<in> set multiplicative \<and> lit_ok x" "lit_ok a"
    using chain_multiplicative [OF that]
    by (intro parsed_and_evaluated [where lvl = FactorLevel]) simp_all
  from g h left_associativity_literals [of x y z] show ?thesis by blast
qed

theorem left_associativity_witness:
  "chain_tree (LiteralExpression 2)
      [((StarBinaryOp, CHR ''*''), LiteralExpression 3),
       ((DivBinaryOp, CHR ''/''), LiteralExpression 2)]
     = DivBinaryOp (StarBinaryOp (LiteralExpression 2) (LiteralExpression 3)) (LiteralExpression 2)
   \<and> evaluate ''2*3/2'' = Inr 3
   \<and> evaluate ''9-2+3-4'' = Inr 6"
proof -
  have s: "str 2 = ''2''" "str 3 = ''3''" "str 4 = ''4''" "str 9 = ''9''"
    by (simp_all add: str.simps char_of_def bit_Suc_0_iff)
  have m: "(PlusBinaryOp, CHR ''+'') \<in> set additive" "(MinusBinaryOp, CHR ''-'') \<in> set additive"
    "(StarBinaryOp, CHR ''*'') \<in> set multiplicative"
    "(DivBinaryOp, CHR ''/'') \<in> set multiplicative"
    by (simp_all add: additive_def multiplicative_def)
  from left_associativity [THEN conjunct2, THEN conjunct1, rule_format,
      of "[((StarBinaryOp, CHR ''*''), LiteralExpression 3),
           ((DivBinaryOp, CHR ''/''), LiteralExpression 2)]" "LiteralExpression 2"]
    left_associativity [THEN conjunct1, rule_format,
      of "[((MinusBinaryOp, CHR ''-''), LiteralExpression 2),
           ((PlusBinaryOp, CHR ''+''), LiteralExpression 3),
           ((MinusBinaryOp, CHR ''-''), LiteralExpression 4)]" "LiteralExpression 9"]
    m s
  show ?thesis by (simp add: chain_text_def chain_tree_def cdiv_def)
qed

end
